theory Spec2Isabelle
  imports Main
begin

section \<open>Values, rows and mapped objects\<close>

text \<open>
  A row of the result set maps column names to scalar values, listed in the order in
  which \<open>Object.keys\<close> enumerates them. Numbers are integers (database keys);
  \<open>NaN\<close> and fractions are not modelled. Looking a column up that the row does not
  have yields \<open>undefined\<close>.

  A mapped object is a mutable record with one namespace of fields, kept as an
  association list in insertion order. Every object and array the mapper builds is
  referenced from exactly one place (the top-level array, one association field or one
  collection field), so the heap is a tree and the in-place mutation of the source is
  explicit state passing: a function that mutates its target returns the new target.
  An array carries its own named fields besides its members, as a JavaScript array does.

  Rows and objects are plain objects: a read of a name they do not have themselves finds
  the member of that name that they inherit from \<open>Object.prototype\<close>, if there is
  one (\<open>constructor\<close>, \<open>toString\<close>, ...). \<open>Builtin k\<close> is that member: a
  function, or for \<open>__proto__\<close> the prototype object itself; it is truthy, it is not
  \<open>null\<close>, and it is identical to itself alone. The further members that an array
  or a primitive has or inherits (\<open>length\<close>, \<open>find\<close>, the characters of a
  string, ...) and the members a factory's instances inherit from their class are not
  listed.
\<close>

datatype scalar = Undefined | Null | Bool bool | Num int | Str string

datatype jsval =
    Scalar scalar
  | Builtin string
  | Obj "(string \<times> jsval) list"
  | Arr "(string \<times> jsval) list" "(string \<times> jsval) list list"

type_synonym object = "(string \<times> jsval) list"

type_synonym row = "(string \<times> scalar) list"

datatype error = TypeError | NotFound string | StackExhausted | BuiltinWritten

text \<open>\<open>!v\<close> is true exactly for the falsy values.\<close>

fun truthy :: "jsval \<Rightarrow> bool" where
  "truthy (Scalar Undefined) = False"
| "truthy (Scalar Null) = False"
| "truthy (Scalar (Bool b)) = b"
| "truthy (Scalar (Num n)) = (n \<noteq> 0)"
| "truthy (Scalar (Str s)) = (s \<noteq> [])"
| "truthy (Builtin k) = True"
| "truthy (Obj fs) = True"
| "truthy (Arr fs items) = True"

text \<open>The names of the members of \<open>Object.prototype\<close>, and the read of a name
  that the object itself does not have.\<close>

definition objectPrototype :: "string list" where
  "objectPrototype =
     [''constructor'', ''__defineGetter__'', ''__defineSetter__'', ''hasOwnProperty'',
      ''__lookupGetter__'', ''__lookupSetter__'', ''isPrototypeOf'', ''propertyIsEnumerable'',
      ''toString'', ''valueOf'', ''__proto__'', ''toLocaleString'']"

definition inherited :: "string \<Rightarrow> jsval" where
  "inherited k = (if k \<in> set objectPrototype then Builtin k else Scalar Undefined)"

text \<open>\<open>result[k]\<close> on a row.\<close>

definition col :: "row \<Rightarrow> string \<Rightarrow> jsval" where
  "col result k = (case map_of result k of None \<Rightarrow> inherited k | Some v \<Rightarrow> Scalar v)"

text \<open>
  \<open>object[k]\<close> and \<open>object[k] = v\<close> on a mapped object. Every assignment of the
  source to a mapped object follows a falsy read of the same name (lines 150, 169, 183,
  212), so the name is either the object's own or not inherited, and the assignment
  sets or adds an own field.
\<close>

definition getField :: "object \<Rightarrow> string \<Rightarrow> jsval" where
  "getField fs k = (case map_of fs k of None \<Rightarrow> inherited k | Some v \<Rightarrow> v)"

fun setField :: "object \<Rightarrow> string \<Rightarrow> jsval \<Rightarrow> object" where
  "setField [] k v = [(k, v)]"
| "setField (p # ps) k v = (if fst p = k then (k, v) # ps else p # setField ps k v)"

section \<open>Mapping definitions\<close>

text \<open>
  An identity field or a property is given as a bare string or as an object with a
  \<open>name\<close> and an optional \<open>column\<close>. \<open>idProperty\<close> is absent, one such
  specification, or an array of them. An association or a collection names the field,
  the mapId of the nested definition and an optional columnPrefix. An absent
  \<open>associations\<close> or \<open>collections\<close> list is the empty list (the guard
  \<open>associations &&\<close> makes the two indistinguishable). The factory \<open>createNew\<close>
  is caller code: it is taken as the fields of the fresh instance it returns.
\<close>

datatype fieldSpec = FStr string | FObj string "string option"

datatype idSpec = Single fieldSpec | Many "fieldSpec list"

record field =
  name :: string
  column :: string

record relation =
  rel_name :: string
  rel_mapId :: string
  rel_columnPrefix :: "string option"

record resultMap =
  mapId :: string
  idProperty :: "idSpec option"
  properties :: "fieldSpec list option"
  associations :: "relation list"
  collections :: "relation list"
  createNew :: "object option"

text \<open>\<open>maps.find(map => map.mapId === mapId)\<close>, and the write-back of a definition
  that was mutated in place (the first entry with that mapId is the one found).\<close>

definition findMap :: "resultMap list \<Rightarrow> string \<Rightarrow> resultMap option" where
  "findMap maps mid = List.find (\<lambda>m. mapId m = mid) maps"

fun storeMap :: "resultMap list \<Rightarrow> resultMap \<Rightarrow> resultMap list" where
  "storeMap [] m' = []"
| "storeMap (m # ms) m' = (if mapId m = mapId m' then m' # ms else m # storeMap ms m')"

section \<open>The mapper\<close>

definition NotFoundError :: "string option \<Rightarrow> error" where
  "NotFoundError message = NotFound (case message of None \<Rightarrow> ''Not Found'' | Some s \<Rightarrow> s)"

definition createMappedObject :: "resultMap \<Rightarrow> object" where
  "createMappedObject resultMap = (case createNew resultMap of Some fs \<Rightarrow> fs | None \<Rightarrow> [])"

text \<open>
  \<open>getIdProperty\<close> returns the list of name/column pairs together with the
  definition as the call leaves it: an object-form entry whose \<open>column\<close> is absent
  or empty has its \<open>column\<close> assigned in place (line 246).
\<close>

fun idField :: "fieldSpec \<Rightarrow> field" where
  "idField (FStr s) = \<lparr>name = s, column = s\<rparr>"
| "idField (FObj n c) =
     (case c of None \<Rightarrow> \<lparr>name = n, column = n\<rparr>
      | Some c' \<Rightarrow> if c' = [] then \<lparr>name = n, column = n\<rparr> else \<lparr>name = n, column = c'\<rparr>)"

fun idFilled :: "fieldSpec \<Rightarrow> fieldSpec" where
  "idFilled (FStr s) = FStr s"
| "idFilled (FObj n c) =
     (case c of None \<Rightarrow> FObj n (Some n)
      | Some c' \<Rightarrow> if c' = [] then FObj n (Some n) else FObj n (Some c'))"

definition getIdProperty :: "resultMap \<Rightarrow> field list \<times> resultMap" where
  "getIdProperty resultMap =
     (case idProperty resultMap of
        None \<Rightarrow> ([\<lparr>name = ''id'', column = ''id''\<rparr>], resultMap)
      | Some (Single s) \<Rightarrow>
          if s = FStr [] then ([\<lparr>name = ''id'', column = ''id''\<rparr>], resultMap)
          else ([idField s], resultMap\<lparr>idProperty := Some (Single (idFilled s))\<rparr>)
      | Some (Many ss) \<Rightarrow>
          (map idField ss, resultMap\<lparr>idProperty := Some (Many (map idFilled ss))\<rparr>))"

text \<open>The optional \<open>columnPrefix\<close> parameter, and \<open>association.columnPrefix +
  field.column\<close> of line 193, where an absent prefix is concatenated as the string
  \<open>undefined\<close>.\<close>

definition prefixOrEmpty :: "string option \<Rightarrow> string" where
  "prefixOrEmpty p = (case p of None \<Rightarrow> [] | Some s \<Rightarrow> s)"

definition plusPrefix :: "string option \<Rightarrow> string \<Rightarrow> string" where
  "plusPrefix p c = (case p of None \<Rightarrow> ''undefined'' @ c | Some s \<Rightarrow> s @ c)"

definition startsWith :: "string \<Rightarrow> string \<Rightarrow> bool" where
  "startsWith s p = (take (length p) s = p)"

text \<open>Lines 137 to 143: the keys of the row that start with the prefix, each with its
  first occurrence of the prefix (the leading one) removed.\<close>

definition inferProperties :: "row \<Rightarrow> string \<Rightarrow> fieldSpec list" where
  "inferProperties result columnPrefix =
     map (\<lambda>f. FStr (drop (length columnPrefix) f))
       (filter (\<lambda>f. startsWith f columnPrefix) (map fst result))"

text \<open>Lines 149 to 153 and 161 to 176: one step of each copy loop.\<close>

definition copyId :: "row \<Rightarrow> string \<Rightarrow> field \<Rightarrow> object \<Rightarrow> object" where
  "copyId result columnPrefix fld mappedObject =
     (if \<not> truthy (getField mappedObject (name fld))
      then setField mappedObject (name fld) (col result (columnPrefix @ column fld))
      else mappedObject)"

fun propertyField :: "fieldSpec \<Rightarrow> field" where
  "propertyField (FStr s) = \<lparr>name = s, column = s\<rparr>"
| "propertyField (FObj n c) =
     (case c of None \<Rightarrow> \<lparr>name = n, column = n\<rparr>
      | Some c' \<Rightarrow> if c' = [] then \<lparr>name = n, column = n\<rparr> else \<lparr>name = n, column = c'\<rparr>)"

definition copyProperty :: "row \<Rightarrow> string \<Rightarrow> fieldSpec \<Rightarrow> object \<Rightarrow> object" where
  "copyProperty result columnPrefix property mappedObject =
     (let p = propertyField property in
      if \<not> truthy (getField mappedObject (name p))
      then setField mappedObject (name p) (col result (columnPrefix @ column p))
      else mappedObject)"

text \<open>A \<open>forEach\<close> whose callback may throw: the first error ends the loop.\<close>

type_synonym 'a outcome = "error + (resultMap list \<times> 'a)"

fun forEach :: "('a \<Rightarrow> 's \<Rightarrow> error + 's) \<Rightarrow> 'a list \<Rightarrow> 's \<Rightarrow> error + 's" where
  "forEach f [] st = Inr st"
| "forEach f (x # xs) st = (case f x st of Inl e \<Rightarrow> Inl e | Inr st' \<Rightarrow> forEach f xs st')"

type_synonym injector =
  "row \<Rightarrow> object \<Rightarrow> resultMap list \<Rightarrow> string \<Rightarrow> string option \<Rightarrow> object outcome"

text \<open>
  \<open>injectResultInCollection\<close> (lines 77 to 115), over the object injector it calls.
  The predicate of line 86 is an object keyed by the identity names; the search of
  line 91 compares each of its keys with \<open>!==\<close>, which on a row scalar is equality of
  values. The predicate starts as \<open>{}\<close> and is assigned without a guard: the name
  \<open>__proto__\<close> reaches the inherited setter and adds no key.
\<close>

definition idPredicate :: "row \<Rightarrow> string \<Rightarrow> field list \<Rightarrow> object" where
  "idPredicate result columnPrefix idProp =
     fold (\<lambda>fld acc. if name fld = ''__proto__'' then acc
                     else setField acc (name fld) (col result (columnPrefix @ column fld)))
       idProp []"

definition matches :: "object \<Rightarrow> object \<Rightarrow> bool" where
  "matches predicate item = list_all (\<lambda>k. getField item k = getField predicate k) (map fst predicate)"

fun findIndex :: "('a \<Rightarrow> bool) \<Rightarrow> 'a list \<Rightarrow> nat option" where
  "findIndex P [] = None"
| "findIndex P (x # xs) =
     (if P x then Some 0 else (case findIndex P xs of None \<Rightarrow> None | Some i \<Rightarrow> Some (Suc i)))"

definition idPropertyNotNull :: "row \<Rightarrow> (string \<Rightarrow> string) \<Rightarrow> field list \<Rightarrow> bool" where
  "idPropertyNotNull result key idProp = list_all (\<lambda>fld. col result (key (column fld)) \<noteq> Scalar Null) idProp"

definition injectResultInCollection_with ::
  "injector \<Rightarrow> row \<Rightarrow> object list \<Rightarrow> resultMap list \<Rightarrow> string \<Rightarrow> string option
    \<Rightarrow> object list outcome" where
  "injectResultInCollection_with inject result mappedCollection maps mid prefixArg =
     (let columnPrefix = prefixOrEmpty prefixArg in
      case findMap maps mid of
        None \<Rightarrow> Inl TypeError
      | Some resultMap0 \<Rightarrow>
          let (idProp, resultMap) = getIdProperty resultMap0;
              maps1 = storeMap maps resultMap;
              predicate = idPredicate result columnPrefix idProp;
              found = findIndex (matches predicate) mappedCollection
          in
          if idPropertyNotNull result (\<lambda>c. columnPrefix @ c) idProp then
            (case found of
               None \<Rightarrow>
                 (case inject result (createMappedObject resultMap) maps1 mid (Some columnPrefix) of
                    Inl e \<Rightarrow> Inl e
                  | Inr (maps2, mappedObject) \<Rightarrow> Inr (maps2, mappedCollection @ [mappedObject]))
             | Some i \<Rightarrow>
                 (case inject result (mappedCollection ! i) maps1 mid (Some columnPrefix) of
                    Inl e \<Rightarrow> Inl e
                  | Inr (maps2, mappedObject) \<Rightarrow> Inr (maps2, mappedCollection[i := mappedObject])))
          else Inr (maps1, mappedCollection))"

text \<open>
  Lines 179 to 205, one association. The associated object is mutated in place by the
  recursive call and stays referenced from the owning field, so the field is rewritten
  with the result.

  A truthy primitive in the field is passed to the recursive call as it is. It has no
  fields of its own and cannot receive any: the file is in strict mode, so the first
  assignment to it throws a TypeError, and a call that assigns nothing returns and leaves
  it unchanged. The recursive call is run on a target without fields; a field in its
  result means that it assigned one. A member inherited from \<open>Object.prototype\<close>
  is passed likewise, and an assignment to it would add a field to an object that the
  whole program shares: the run ends there with \<open>BuiltinWritten\<close>, which stands for
  an effect outside the state passed here. (An error of the recursive call is reported
  as it is, also where an assignment came first.)
\<close>

definition copyAssociation ::
  "injector \<Rightarrow> row \<Rightarrow> relation \<Rightarrow> resultMap list \<times> object \<Rightarrow> object outcome" where
  "copyAssociation inject result association st =
     (let (maps, mappedObject) = st;
          held = getField mappedObject (rel_name association) in
      case
        (if \<not> truthy held then
           (case findMap maps (rel_mapId association) of
              None \<Rightarrow> Inl TypeError
            | Some associatedResultMap0 \<Rightarrow>
                let (associatedObjectIdProperty, associatedResultMap) =
                      getIdProperty associatedResultMap0;
                    maps1 = storeMap maps associatedResultMap;
                    cleared = setField mappedObject (rel_name association) (Scalar Null)
                in
                if idPropertyNotNull result (plusPrefix (rel_columnPrefix association))
                     associatedObjectIdProperty
                then
                  let associatedObject = Obj (createMappedObject associatedResultMap) in
                  Inr (maps1, setField cleared (rel_name association) associatedObject,
                       associatedObject)
                else Inr (maps1, cleared, held))
         else Inr (maps, mappedObject, held))
      of
        Inl e \<Rightarrow> Inl e
      | Inr (maps1, mappedObject1, associatedObject) \<Rightarrow>
          if truthy associatedObject then
            (case associatedObject of
               Obj fs \<Rightarrow>
                 (case inject result fs maps1 (rel_mapId association) (rel_columnPrefix association) of
                    Inl e \<Rightarrow> Inl e
                  | Inr (maps2, fs') \<Rightarrow>
                      Inr (maps2, setField mappedObject1 (rel_name association) (Obj fs')))
             | Arr fs items \<Rightarrow>
                 (case inject result fs maps1 (rel_mapId association) (rel_columnPrefix association) of
                    Inl e \<Rightarrow> Inl e
                  | Inr (maps2, fs') \<Rightarrow>
                      Inr (maps2, setField mappedObject1 (rel_name association) (Arr fs' items)))
             | Scalar s \<Rightarrow>
                 (case inject result [] maps1 (rel_mapId association) (rel_columnPrefix association) of
                    Inl e \<Rightarrow> Inl e
                  | Inr (maps2, fs') \<Rightarrow>
                      if fs' = [] then Inr (maps2, mappedObject1) else Inl TypeError)
             | Builtin k \<Rightarrow>
                 (case inject result [] maps1 (rel_mapId association) (rel_columnPrefix association) of
                    Inl e \<Rightarrow> Inl e
                  | Inr (maps2, fs') \<Rightarrow>
                      if fs' = [] then Inr (maps2, mappedObject1) else Inl BuiltinWritten))
          else Inr (maps1, mappedObject1))"

text \<open>
  Lines 208 to 218, one collection. A truthy value in the field that is not an array has
  no \<open>find\<close> method: that is the TypeError branch.
\<close>

definition copyCollection ::
  "injector \<Rightarrow> row \<Rightarrow> relation \<Rightarrow> resultMap list \<times> object \<Rightarrow> object outcome" where
  "copyCollection inject result collection st =
     (let (maps, mappedObject) = st;
          held = getField mappedObject (rel_name collection);
          mappedCollection = (if \<not> truthy held then Arr [] [] else held);
          mappedObject1 =
            (if \<not> truthy held then setField mappedObject (rel_name collection) mappedCollection
             else mappedObject)
      in
      case mappedCollection of
        Arr fs items \<Rightarrow>
          (case injectResultInCollection_with inject result items maps
                  (rel_mapId collection) (rel_columnPrefix collection) of
             Inl e \<Rightarrow> Inl e
           | Inr (maps1, items') \<Rightarrow>
               Inr (maps1, setField mappedObject1 (rel_name collection) (Arr fs items')))
      | Obj fs \<Rightarrow> Inl TypeError
      | Scalar s \<Rightarrow> Inl TypeError
      | Builtin k \<Rightarrow> Inl TypeError)"

text \<open>
  \<open>injectResultInObject\<close> (lines 126 to 219), over the injector used for the nested
  calls. The properties, associations and collections are read from the definition once
  (line 155), after the inference and before the loops.
\<close>

definition injectResultInObject_body :: "injector \<Rightarrow> injector" where
  "injectResultInObject_body inject result mappedObject maps mid prefixArg =
     (let columnPrefix = prefixOrEmpty prefixArg in
      case findMap maps mid of
        None \<Rightarrow> Inl TypeError
      | Some resultMap0 \<Rightarrow>
          let resultMap1 =
                (if properties resultMap0 = None
                 then resultMap0\<lparr>properties := Some (inferProperties result columnPrefix)\<rparr>
                 else resultMap0);
              (idProp, resultMap) = getIdProperty resultMap1;
              maps1 = storeMap maps resultMap;
              mappedObject1 = fold (copyId result columnPrefix) idProp mappedObject;
              mappedObject2 =
                fold (copyProperty result columnPrefix)
                  (case properties resultMap of None \<Rightarrow> [] | Some ps \<Rightarrow> ps) mappedObject1
          in
          (case forEach (copyAssociation inject result) (associations resultMap)
                  (maps1, mappedObject2) of
             Inl e \<Rightarrow> Inl e
           | Inr st \<Rightarrow> forEach (copyCollection inject result) (collections resultMap) st))"

text \<open>
  The recursion of the source is bounded by the nesting of the mapping definitions and
  does not end on a cyclic configuration. The first argument bounds the depth of nested
  calls of \<open>injectResultInObject\<close>; \<open>StackExhausted\<close> is the outcome of a call that
  would go deeper.
\<close>

primrec injectResultInObject :: "nat \<Rightarrow> injector" where
  "injectResultInObject 0 = (\<lambda>result mappedObject maps mid prefixArg. Inl StackExhausted)"
| "injectResultInObject (Suc n) = injectResultInObject_body (injectResultInObject n)"

definition injectResultInCollection ::
  "nat \<Rightarrow> row \<Rightarrow> object list \<Rightarrow> resultMap list \<Rightarrow> string \<Rightarrow> string option
    \<Rightarrow> object list outcome" where
  "injectResultInCollection n = injectResultInCollection_with (injectResultInObject n)"

text \<open>
  \<open>map\<close> (lines 27 to 36) and \<open>mapOne\<close> (lines 53 to 66). \<open>mapOne\<close> reads
  its four parameters and \<open>arguments[4]\<close>; whatever else a caller passes is its last
  argument here, which the body does not mention.
\<close>

definition map_joinjs ::
  "nat \<Rightarrow> row list \<Rightarrow> resultMap list \<Rightarrow> string \<Rightarrow> string option \<Rightarrow> object list outcome" where
  "map_joinjs n resultSet maps mid columnPrefix =
     forEach (\<lambda>result (maps', mappedCollection).
                injectResultInCollection n result mappedCollection maps' mid columnPrefix)
       resultSet (maps, [])"

definition mapOne ::
  "nat \<Rightarrow> row list \<Rightarrow> resultMap list \<Rightarrow> string \<Rightarrow> string option \<Rightarrow> bool option
    \<Rightarrow> jsval list \<Rightarrow> jsval outcome" where
  "mapOne n resultSet maps mid columnPrefix isRequiredArg moreArguments =
     (let isRequired = (case isRequiredArg of None \<Rightarrow> True | Some b \<Rightarrow> b) in
      case map_joinjs n resultSet maps mid columnPrefix of
        Inl e \<Rightarrow> Inl e
      | Inr (maps', mappedCollection) \<Rightarrow>
          (case mappedCollection of
             first # rest \<Rightarrow> Inr (maps', Obj first)
           | [] \<Rightarrow>
               if isRequired then Inl (NotFoundError (Some ''EmptyResponse''))
               else Inr (maps', Scalar Null)))"

section \<open>Notions used in the statements\<close>



definition firstOccurrences :: "'a list \<Rightarrow> 'a list" where
  "firstOccurrences xs = rev (remdups (rev xs))"


text \<open>
  A definition is only ever changed in two ways: \<open>getIdProperty\<close> fills in a missing
  identity column, and the inference of lines 136 to 144 gives a definition without
  properties a list of bare strings. \<open>laterMaps\<close> relates a state of the definitions
  to every state those two changes can lead to.
\<close>

definition laterMap :: "resultMap \<Rightarrow> resultMap \<Rightarrow> bool" where
  "laterMap m m' \<longleftrightarrow>
     mapId m' = mapId m \<and> associations m' = associations m \<and> collections m' = collections m
     \<and> createNew m' = createNew m
     \<and> (idProperty m' = idProperty m \<or> idProperty m' = idProperty (snd (getIdProperty m)))
     \<and> (properties m' = properties m
         \<or> (properties m = None \<and> (\<exists>ks. properties m' = Some (map FStr ks))))"

definition laterMaps :: "resultMap list \<Rightarrow> resultMap list \<Rightarrow> bool" where
  "laterMaps ms ms' \<longleftrightarrow> list_all2 laterMap ms ms'"

text \<open>
  What one call of \<open>injectResultInObject\<close> works with: the property list it copies,
  the definition as it leaves it, and the target after the two copy loops.
\<close>

definition targetFields :: "jsval \<Rightarrow> object" where
  "targetFields held = (case held of Obj fs \<Rightarrow> fs | Arr fs items \<Rightarrow> fs | _ \<Rightarrow> [])"

definition written :: "jsval \<Rightarrow> object \<Rightarrow> string \<Rightarrow> object \<Rightarrow> error + object" where
  "written held owner k fs' =
     (case held of
        Obj fs \<Rightarrow> Inr (setField owner k (Obj fs'))
      | Arr fs items \<Rightarrow> Inr (setField owner k (Arr fs' items))
      | Scalar s \<Rightarrow> if fs' = [] then Inr owner else Inl TypeError
      | Builtin b \<Rightarrow> if fs' = [] then Inr owner else Inl BuiltinWritten)"

definition usedProperties :: "row \<Rightarrow> string \<Rightarrow> resultMap \<Rightarrow> fieldSpec list" where
  "usedProperties r p m = (case properties m of None \<Rightarrow> inferProperties r p | Some ps \<Rightarrow> ps)"

definition resolvedMap :: "row \<Rightarrow> string \<Rightarrow> resultMap \<Rightarrow> resultMap" where
  "resolvedMap r p m =
     snd (getIdProperty (if properties m = None
                         then m\<lparr>properties := Some (inferProperties r p)\<rparr> else m))"

definition copiedFields :: "row \<Rightarrow> string \<Rightarrow> resultMap \<Rightarrow> object \<Rightarrow> object" where
  "copiedFields r p m ob =
     fold (copyProperty r p) (usedProperties r p m) (fold (copyId r p) (fst (getIdProperty m)) ob)"


definition growsMaps :: "injector \<Rightarrow> bool" where
  "growsMaps ij \<longleftrightarrow>
     (\<forall>r ob ms mid pa ms' ob'. ij r ob ms mid pa = Inr (ms', ob') \<longrightarrow> laterMaps ms ms')"

definition replays :: "injector \<Rightarrow> bool" where
  "replays ij \<longleftrightarrow>
     (\<forall>r ob ms mid pa ms1 ob' later.
        ij r ob ms mid pa = Inr (ms1, ob') \<longrightarrow> laterMaps ms1 later \<longrightarrow>
        ij r ob later mid pa = Inr (later, ob'))"

text \<open>
  Nor does the mapper check how the definitions refer to each other. The statements that
  say that a run returns are about configurations of the following kind.

  \<open>cleanNames\<close>: the associations and collections of a definition are named pairwise
  differently, and none of them is named like an identity field or a property, or holds a
  truthy value in a fresh instance of the factory. For a definition without properties,
  whose list will be inferred from some row of the result set, the names to keep clear of
  are the endings of the column names of the rows (\<open>endings\<close>: a column name with
  any prefix dropped).

  \<open>wellNested d\<close>: the definition of the mapId is present, and so are the definitions
  its associations and collections refer to, \<open>d\<close> levels deep. A configuration that
  refers back to itself is not well nested for any \<open>d\<close>.

  \<open>shaped d\<close>: an object as the mapper builds it for a mapId. Each association field
  holds a falsy value or an object, each collection field a falsy value or an array, and
  the same holds of those objects and of the members of those arrays, \<open>d\<close> levels
  deep. \<open>fieldsShaped\<close> is the same for the fields of one definition.

  \<open>completes\<close> is the property of an object injector that is proved below for every
  depth bound: on clean, well nested definitions and a shaped target the call returns,
  and it leaves the definitions clean and the target shaped.
\<close>

fun endings :: "string \<Rightarrow> string list" where
  "endings [] = [[]]"
| "endings (c # cs) = (c # cs) # endings cs"

definition relationNames :: "resultMap \<Rightarrow> string list" where
  "relationNames m = map rel_name (associations m @ collections m)"

definition propertyNamesFor :: "row list \<Rightarrow> resultMap \<Rightarrow> string list" where
  "propertyNamesFor rs m =
     (case properties m of
        Some ps \<Rightarrow> map (\<lambda>q. name (propertyField q)) ps
      | None \<Rightarrow> concat (map (\<lambda>r. concat (map (\<lambda>c. endings (fst c)) r)) rs))"

definition cleanNames :: "row list \<Rightarrow> resultMap \<Rightarrow> bool" where
  "cleanNames rs m \<longleftrightarrow>
     distinct (relationNames m)
     \<and> (\<forall>k\<in>set (relationNames m).
           k \<notin> name ` set (fst (getIdProperty m))
           \<and> k \<notin> set (propertyNamesFor rs m)
           \<and> \<not> truthy (getField (createMappedObject m) k))"

definition allClean :: "row list \<Rightarrow> resultMap list \<Rightarrow> bool" where
  "allClean rs ms \<longleftrightarrow> (\<forall>m\<in>set ms. cleanNames rs m)"

primrec wellNested :: "nat \<Rightarrow> resultMap list \<Rightarrow> string \<Rightarrow> bool" where
  "wellNested 0 ms mid = False"
| "wellNested (Suc d) ms mid =
     (case findMap ms mid of
        None \<Rightarrow> False
      | Some m \<Rightarrow> (\<forall>a\<in>set (associations m). wellNested d ms (rel_mapId a))
                \<and> (\<forall>c\<in>set (collections m). wellNested d ms (rel_mapId c)))"

definition heldObject :: "(object \<Rightarrow> bool) \<Rightarrow> jsval \<Rightarrow> bool" where
  "heldObject P v = (\<not> truthy v \<or> (case v of Obj fs \<Rightarrow> P fs | _ \<Rightarrow> False))"

definition heldArray :: "(object \<Rightarrow> bool) \<Rightarrow> jsval \<Rightarrow> bool" where
  "heldArray P v = (\<not> truthy v \<or> (case v of Arr fs items \<Rightarrow> list_all P items | _ \<Rightarrow> False))"

primrec shaped :: "nat \<Rightarrow> resultMap list \<Rightarrow> string \<Rightarrow> object \<Rightarrow> bool" where
  "shaped 0 ms mid ob = True"
| "shaped (Suc d) ms mid ob =
     (case findMap ms mid of
        None \<Rightarrow> True
      | Some m \<Rightarrow>
          (\<forall>a\<in>set (associations m).
              heldObject (shaped d ms (rel_mapId a)) (getField ob (rel_name a)))
        \<and> (\<forall>c\<in>set (collections m).
              heldArray (shaped d ms (rel_mapId c)) (getField ob (rel_name c))))"

definition completes :: "row list \<Rightarrow> nat \<Rightarrow> injector \<Rightarrow> bool" where
  "completes rs d ij \<longleftrightarrow>
     (\<forall>r\<in>set rs. \<forall>ob ms mid pa.
        allClean rs ms \<longrightarrow> wellNested d ms mid \<longrightarrow> shaped d ms mid ob \<longrightarrow>
        (\<exists>ms' ob'. ij r ob ms mid pa = Inr (ms', ob') \<and> allClean rs ms' \<and> shaped d ms mid ob'))"

definition fieldsShaped :: "nat \<Rightarrow> resultMap list \<Rightarrow> resultMap \<Rightarrow> object \<Rightarrow> bool" where
  "fieldsShaped d ms m ob \<longleftrightarrow>
     (\<forall>a\<in>set (associations m). heldObject (shaped d ms (rel_mapId a)) (getField ob (rel_name a)))
   \<and> (\<forall>c\<in>set (collections m). heldArray (shaped d ms (rel_mapId c)) (getField ob (rel_name c)))"

section \<open>Example configurations\<close>

text \<open>
  The parent/child scenario: a parent with the collection \<open>children\<close> under the prefix
  \<open>child_\<close>, the child definition without properties.
\<close>

definition parentMap :: resultMap where
  "parentMap = \<lparr>mapId = ''parent'', idProperty = None, properties = Some [FStr ''name''],
     associations = [],
     collections = [\<lparr>rel_name = ''children'', rel_mapId = ''child'',
                     rel_columnPrefix = Some ''child_''\<rparr>],
     createNew = None\<rparr>"

definition childMap :: resultMap where
  "childMap = \<lparr>mapId = ''child'', idProperty = None, properties = None,
     associations = [], collections = [], createNew = None\<rparr>"

definition familyRows :: "row list" where
  "familyRows =
    [[(''id'', Num 1), (''name'', Str ''A''), (''child_id'', Num 10), (''child_name'', Str ''X'')],
     [(''id'', Num 1), (''name'', Str ''A''), (''child_id'', Num 11), (''child_name'', Str ''Y'')],
     [(''id'', Num 2), (''name'', Str ''B''), (''child_id'', Null), (''child_name'', Null)]]"

definition familyObjects :: "object list" where
  "familyObjects =
     [[(''id'', Scalar (Num 1)), (''name'', Scalar (Str ''A'')),
       (''children'', Arr [] [[(''id'', Scalar (Num 10)), (''name'', Scalar (Str ''X''))],
                              [(''id'', Scalar (Num 11)), (''name'', Scalar (Str ''Y''))]])],
      [(''id'', Scalar (Num 2)), (''name'', Scalar (Str ''B'')), (''children'', Arr [] [])]]"

definition childMapInferred :: resultMap where
  "childMapInferred = childMap\<lparr>properties := Some [FStr ''id'', FStr ''name'']\<rparr>"

text \<open>Identities given as an object without column, and as an array.\<close>

definition keyedMap :: resultMap where
  "keyedMap = \<lparr>mapId = ''keyed'', idProperty = Some (Single (FObj ''key'' None)),
     properties = Some [], associations = [], collections = [], createNew = None\<rparr>"

definition pairMap :: resultMap where
  "pairMap = \<lparr>mapId = ''pair'',
     idProperty = Some (Many [FStr ''a'', FObj ''b'' (Some ''b_col''), FObj ''c'' None]),
     properties = Some [], associations = [], collections = [], createNew = None\<rparr>"


text \<open>An item with one property, and an owner with one association whose prefix varies.\<close>

definition itemMap :: resultMap where
  "itemMap = \<lparr>mapId = ''item'', idProperty = None, properties = Some [FStr ''qty''],
     associations = [], collections = [], createNew = None\<rparr>"

definition petMap :: resultMap where
  "petMap = \<lparr>mapId = ''pet'', idProperty = Some (Single (FStr ''pet_id'')),
     properties = Some [], associations = [], collections = [], createNew = None\<rparr>"

definition ownerMap :: "string option \<Rightarrow> resultMap" where
  "ownerMap petPrefix = \<lparr>mapId = ''owner'', idProperty = None, properties = Some [],
     associations = [\<lparr>rel_name = ''pet'', rel_mapId = ''pet'', rel_columnPrefix = petPrefix\<rparr>],
     collections = [], createNew = None\<rparr>"



section \<open>Definitions and their identity fields\<close>

lemma findMap_mapId: "findMap ms k = Some m \<Longrightarrow> mapId m = k"
  by (induction ms) (auto simp: findMap_def split: if_splits)

lemma findMap_storeMap:
  "findMap ms (mapId m') = Some m \<Longrightarrow>
   findMap (storeMap ms m') k = (if k = mapId m' then Some m' else findMap ms k)"
  by (induction ms) (auto simp: findMap_def split: if_splits)

lemma storeMap_same: "findMap ms (mapId m) = Some m \<Longrightarrow> storeMap ms m = ms"
  by (induction ms) (auto simp: findMap_def split: if_splits)

lemma idField_idFilled: "idField (idFilled s) = idField s"
  by (cases s) (auto split: option.splits)

lemma idFilled_idem: "idFilled (idFilled s) = idFilled s"
  by (cases s) (auto split: option.splits)

lemma idFilled_FStr: "idFilled s = FStr t \<longleftrightarrow> s = FStr t"
  by (cases s) (auto split: option.splits)

lemma getIdProperty_mapId: "mapId (snd (getIdProperty m)) = mapId m"
  by (auto simp: getIdProperty_def split: option.splits idSpec.splits)

lemma getIdProperty_again_fst: "fst (getIdProperty (snd (getIdProperty m))) = fst (getIdProperty m)"
  by (auto split: option.splits idSpec.splits simp: getIdProperty_def idField_idFilled idFilled_FStr)

lemma getIdProperty_again_snd: "snd (getIdProperty (snd (getIdProperty m))) = snd (getIdProperty m)"
  by (auto split: option.splits idSpec.splits simp: getIdProperty_def idFilled_idem idFilled_FStr)

lemma getIdProperty_fst_cong:
  "idProperty m = idProperty m2 \<Longrightarrow> fst (getIdProperty m) = fst (getIdProperty m2)"
  by (simp add: getIdProperty_def split: option.splits idSpec.splits)

lemma getIdProperty_snd_cong:
  "idProperty m = idProperty m2 \<Longrightarrow>
   idProperty (snd (getIdProperty m)) = idProperty (snd (getIdProperty m2))"
  by (auto simp: getIdProperty_def split: option.splits idSpec.splits)

lemma getIdProperty_snd_only:
  "snd (getIdProperty m) = m\<lparr>idProperty := idProperty (snd (getIdProperty m))\<rparr>"
  by (auto simp: getIdProperty_def split: option.splits idSpec.splits)

lemma getIdProperty_fst_properties [simp]:
  "fst (getIdProperty (m\<lparr>properties := x\<rparr>)) = fst (getIdProperty m)"
  by (rule getIdProperty_fst_cong) simp

lemma getIdProperty_snd_fields [simp]:
  "properties (snd (getIdProperty m)) = properties m"
  "associations (snd (getIdProperty m)) = associations m"
  "collections (snd (getIdProperty m)) = collections m"
  "createNew (snd (getIdProperty m)) = createNew m"
  "mapId (snd (getIdProperty m)) = mapId m"
  by (auto simp: getIdProperty_def split: option.splits idSpec.splits)



section \<open>Fields of the target\<close>

lemma getField_setField: "getField (setField fs k v) k' = (if k' = k then v else getField fs k')"
  by (induction fs) (auto simp: getField_def)

lemma setField_setField: "setField (setField fs k v) k w = setField fs k w"
  by (induction fs) auto


lemma copyId_other: "name fld \<noteq> k \<Longrightarrow> getField (copyId r p fld ob) k = getField ob k"
  by (simp add: copyId_def getField_setField)


lemma fold_copyId_other:
  "k \<notin> name ` set ids \<Longrightarrow> getField (fold (copyId r p) ids ob) k = getField ob k"
  by (induction ids arbitrary: ob) (auto simp: copyId_other)


lemma copyProperty_get:
  "getField (copyProperty r p q ob) k =
     (if k = name (propertyField q) \<and> \<not> truthy (getField ob k)
      then (col r (p @ column (propertyField q))) else getField ob k)"
  by (auto simp: copyProperty_def Let_def getField_setField)

lemma fold_copyProperty_keeps:
  "getField ob k = v \<Longrightarrow>
   \<forall>q\<in>set ps. name (propertyField q) = k \<longrightarrow>
      truthy v \<or> (col r (p @ column (propertyField q))) = v \<Longrightarrow>
   getField (fold (copyProperty r p) ps ob) k = v"
proof (induction ps arbitrary: ob)
  case Nil
  then show ?case by simp
next
  case (Cons q ps)
  have "getField (copyProperty r p q ob) k = v"
    using Cons.prems by (auto simp: copyProperty_get)
  then show ?case using Cons.IH Cons.prems(2) by simp
qed




section \<open>Loops, associations and collections\<close>

lemma forEach_invariant:
  assumes "forEach f xs st = Inr st'"
    and "P st"
    and "\<And>x s s'. x \<in> set xs \<Longrightarrow> P s \<Longrightarrow> f x s = Inr s' \<Longrightarrow> P s'"
  shows "P st'"
  using assms
proof (induction xs arbitrary: st)
  case Nil
  then show ?case by simp
next
  case (Cons x xs)
  from Cons.prems(1) obtain s1 where s1: "f x st = Inr s1" "forEach f xs s1 = Inr st'"
    by (auto split: sum.splits)
  have "P s1" using Cons.prems(3)[of x st s1] Cons.prems(2) s1(1) by simp
  then show ?case using Cons.IH[OF s1(2)] Cons.prems(3) by auto
qed

lemma copyAssociation_other:
  assumes "copyAssociation ij r a (ms, ob) = Inr (ms', ob')" and "k \<noteq> rel_name a"
  shows "getField ob' k = getField ob k"
  using assms
  by (auto simp: copyAssociation_def Let_def getField_setField split_beta
      split: if_splits option.splits sum.splits jsval.splits prod.splits)

lemma copyCollection_other:
  assumes "copyCollection ij r c (ms, ob) = Inr (ms', ob')" and "k \<noteq> rel_name c"
  shows "getField ob' k = getField ob k"
  using assms
  by (auto simp: copyCollection_def Let_def getField_setField split_beta
      split: if_splits option.splits sum.splits jsval.splits prod.splits)



lemma copyAssociation_truthy_eq:
  assumes "truthy (getField ob (rel_name a))"
  shows "copyAssociation ij r a (ms, ob) =
     (case ij r (targetFields (getField ob (rel_name a))) ms (rel_mapId a) (rel_columnPrefix a) of
        Inl e \<Rightarrow> Inl e
      | Inr (ms2, fs') \<Rightarrow>
          (case written (getField ob (rel_name a)) ob (rel_name a) fs' of
             Inl e \<Rightarrow> Inl e
           | Inr ob' \<Rightarrow> Inr (ms2, ob')))"
  using assms
  by (cases "getField ob (rel_name a)")
     (auto simp: copyAssociation_def Let_def targetFields_def written_def
        split: sum.splits)

lemma copyAssociation_falsy_eq:
  assumes "\<not> truthy (getField ob (rel_name a))"
    and "findMap ms (rel_mapId a) = Some am"
  shows "copyAssociation ij r a (ms, ob) =
     (if idPropertyNotNull r (plusPrefix (rel_columnPrefix a)) (fst (getIdProperty am)) then
        (case ij r (createMappedObject am) (storeMap ms (snd (getIdProperty am)))
                (rel_mapId a) (rel_columnPrefix a) of
           Inl e \<Rightarrow> Inl e
         | Inr (ms2, fs') \<Rightarrow> Inr (ms2, setField ob (rel_name a) (Obj fs')))
      else Inr (storeMap ms (snd (getIdProperty am)), setField ob (rel_name a) (Scalar Null)))"
  using assms
  by (simp add: copyAssociation_def Let_def split_beta setField_setField createMappedObject_def
      cong: sum.case_cong)

lemma copyCollection_Arr:
  assumes "getField ob (rel_name c) = Arr fs items"
  shows "copyCollection ij r c (ms, ob) =
     (case injectResultInCollection_with ij r items ms (rel_mapId c) (rel_columnPrefix c) of
        Inl e \<Rightarrow> Inl e
      | Inr (ms1, items') \<Rightarrow> Inr (ms1, setField ob (rel_name c) (Arr fs items')))"
  using assms by (simp add: copyCollection_def Let_def)

section \<open>One injection into an object\<close>


lemma inferProperties_FStr: "\<exists>ks. inferProperties r p = map FStr ks"
  unfolding inferProperties_def
  by (rule exI[of _ "map (drop (length p)) (filter (\<lambda>f. startsWith f p) (map fst r))"]) simp

lemma injectResultInObject_body_eq:
  assumes "findMap ms mid = Some m"
  shows "injectResultInObject_body ij r ob ms mid pa =
     (case forEach (copyAssociation ij r) (associations m)
             (storeMap ms (resolvedMap r (prefixOrEmpty pa) m),
              copiedFields r (prefixOrEmpty pa) m ob) of
        Inl e \<Rightarrow> Inl e
      | Inr st \<Rightarrow> forEach (copyCollection ij r) (collections m) st)"
proof (cases "properties m")
  case None
  then show ?thesis
    using assms
    by (simp add: injectResultInObject_body_def Let_def split_beta resolvedMap_def
        usedProperties_def copiedFields_def cong: sum.case_cong)
next
  case (Some ps)
  then show ?thesis
    using assms
    by (simp add: injectResultInObject_body_def Let_def split_beta resolvedMap_def
        usedProperties_def copiedFields_def cong: sum.case_cong)
qed

lemma injectResultInObject_body_flat:
  assumes "findMap ms mid = Some m" and "associations m = []" and "collections m = []"
  shows "injectResultInObject_body ij r ob ms mid pa =
     Inr (storeMap ms (resolvedMap r (prefixOrEmpty pa) m), copiedFields r (prefixOrEmpty pa) m ob)"
  using assms by (simp add: injectResultInObject_body_eq)

lemma resolvedMap_fields [simp]:
  "mapId (resolvedMap r p m) = mapId m"
  "properties (resolvedMap r p m) = Some (usedProperties r p m)"
  "associations (resolvedMap r p m) = associations m"
  "collections (resolvedMap r p m) = collections m"
  "createNew (resolvedMap r p m) = createNew m"
  by (auto simp: resolvedMap_def usedProperties_def)

lemma resolvedMap_again:
  "resolvedMap r p (resolvedMap r p m) = resolvedMap r p m"
  "usedProperties r p (resolvedMap r p m) = usedProperties r p m"
  "fst (getIdProperty (resolvedMap r p m)) = fst (getIdProperty m)"
  by (auto simp: resolvedMap_def usedProperties_def getIdProperty_again_snd
      getIdProperty_again_fst)




section \<open>One injection into a collection\<close>





lemma findIndex_Some:
  "findIndex P xs = Some i \<Longrightarrow> i < length xs \<and> P (xs ! i) \<and> (\<forall>j<i. \<not> P (xs ! j))"
proof (induction xs arbitrary: i)
  case Nil
  then show ?case by simp
next
  case (Cons x xs)
  show ?case
  proof (cases "P x")
    case True
    then show ?thesis using Cons.prems by simp
  next
    case False
    then obtain k where k: "findIndex P xs = Some k" "i = Suc k"
      using Cons.prems by (auto split: option.splits)
    then show ?thesis using Cons.IH[OF k(1)] False by (auto simp: less_Suc_eq_0_disj)
  qed
qed

lemma injectResultInCollection_with_eq:
  assumes "findMap ms mid = Some m"
  shows "injectResultInCollection_with ij r coll ms mid pa =
     (if idPropertyNotNull r ((@) (prefixOrEmpty pa)) (fst (getIdProperty m)) then
        (case findIndex (matches (idPredicate r (prefixOrEmpty pa) (fst (getIdProperty m)))) coll of
           None \<Rightarrow>
             (case ij r (createMappedObject m) (storeMap ms (snd (getIdProperty m))) mid
                     (Some (prefixOrEmpty pa)) of
                Inl e \<Rightarrow> Inl e
              | Inr (ms2, ob) \<Rightarrow> Inr (ms2, coll @ [ob]))
         | Some i \<Rightarrow>
             (case ij r (coll ! i) (storeMap ms (snd (getIdProperty m))) mid
                     (Some (prefixOrEmpty pa)) of
                Inl e \<Rightarrow> Inl e
              | Inr (ms2, ob) \<Rightarrow> Inr (ms2, coll[i := ob])))
      else Inr (storeMap ms (snd (getIdProperty m)), coll))"
  using assms
  by (simp add: injectResultInCollection_with_def Let_def split_beta createMappedObject_def
      cong: option.case_cong sum.case_cong)

lemma injectResultInCollection_null_id:
  assumes "findMap maps mid = Some m"
    and "\<exists>fld\<in>set (fst (getIdProperty m)). col result (prefixOrEmpty p @ column fld) = Scalar Null"
  shows "injectResultInCollection n result coll maps mid p
         = Inr (storeMap maps (snd (getIdProperty m)), coll)"
proof -
  have "\<not> idPropertyNotNull result (\<lambda>c. prefixOrEmpty p @ c) (fst (getIdProperty m))"
    using assms(2) by (auto simp: idPropertyNotNull_def list_all_iff)
  then show ?thesis
    using assms(1)
    by (simp add: injectResultInCollection_def injectResultInCollection_with_def
        Let_def split_beta)
qed

lemma map_joinjs_Nil: "map_joinjs n [] maps mid p = Inr (maps, [])"
  by (simp add: map_joinjs_def)

lemma forEach_null_ids:
  assumes "findMap maps mid = Some m"
    and "\<forall>result\<in>set rs. \<exists>fld\<in>set (fst (getIdProperty m)).
           col result (prefixOrEmpty p @ column fld) = Scalar Null"
  shows "forEach (\<lambda>result (maps', mappedCollection).
            injectResultInCollection n result mappedCollection maps' mid p) rs (maps, coll)
         = Inr (if rs = [] then maps else storeMap maps (snd (getIdProperty m)), coll)"
  using assms
proof (induction rs arbitrary: maps m)
  case Nil
  then show ?case by simp
next
  case (Cons r rs)
  let ?m' = "snd (getIdProperty m)"
  let ?maps' = "storeMap maps ?m'"
  have mid: "mapId ?m' = mid"
    using Cons.prems(1) findMap_mapId getIdProperty_mapId by metis
  have step: "injectResultInCollection n r coll maps mid p = Inr (?maps', coll)"
    using Cons.prems by (intro injectResultInCollection_null_id) auto
  have f': "findMap ?maps' mid = Some ?m'"
    using findMap_storeMap[of maps ?m' m mid] Cons.prems(1) mid by simp
  have ids': "fst (getIdProperty ?m') = fst (getIdProperty m)"
    by (rule getIdProperty_again_fst)
  have rest: "forEach (\<lambda>result (maps', mappedCollection).
            injectResultInCollection n result mappedCollection maps' mid p) rs (?maps', coll)
         = Inr (if rs = [] then ?maps' else storeMap ?maps' (snd (getIdProperty ?m')), coll)"
    using Cons.prems(2) by (intro Cons.IH[OF f']) (simp add: ids')
  have again: "storeMap ?maps' (snd (getIdProperty ?m')) = ?maps'"
    using f' mid storeMap_same[of ?maps' ?m'] by (simp add: getIdProperty_again_snd)
  show ?case
    using step rest again by simp
qed



section \<open>The definitions during a run\<close>

lemma laterMap_refl [simp]: "laterMap m m"
  by (simp add: laterMap_def)

lemma laterMap_trans: "laterMap a b \<Longrightarrow> laterMap b c \<Longrightarrow> laterMap a c"
  unfolding laterMap_def
  using getIdProperty_snd_cong[of b a] getIdProperty_snd_cong[of b "snd (getIdProperty a)"]
    getIdProperty_again_snd[of a]
  by (elim conjE disjE) (auto)

lemma laterMaps_refl [simp]: "laterMaps ms ms"
  by (simp add: laterMaps_def list_all2_refl)

lemma laterMaps_trans: "laterMaps a b \<Longrightarrow> laterMaps b c \<Longrightarrow> laterMaps a c"
  unfolding laterMaps_def by (rule list_all2_trans[of laterMap laterMap laterMap]) (auto intro: laterMap_trans)

lemma laterMap_getIdProperty: "laterMap m (snd (getIdProperty m))"
  by (simp add: laterMap_def)

lemma laterMap_resolvedMap: "laterMap m (resolvedMap r p m)"
  using inferProperties_FStr[of r p]
  by (auto simp: laterMap_def resolvedMap_def intro!: getIdProperty_snd_cong)

lemma laterMaps_storeMap:
  "findMap ms (mapId m') = Some m \<Longrightarrow> laterMap m m' \<Longrightarrow> laterMaps ms (storeMap ms m')"
  by (induction ms) (auto simp: findMap_def laterMaps_def list_all2_refl split: if_splits)

lemma findMap_laterMaps:
  "laterMaps ms ms' \<Longrightarrow> findMap ms k = Some m \<Longrightarrow>
   \<exists>m'. findMap ms' k = Some m' \<and> laterMap m m'"
  unfolding laterMaps_def
  by (induction ms ms' rule: list_all2_induct) (auto simp: findMap_def laterMap_def split: if_splits)

lemma laterMap_ids: "laterMap m m' \<Longrightarrow> fst (getIdProperty m') = fst (getIdProperty m)"
  unfolding laterMap_def
  using getIdProperty_fst_cong[of m' m] getIdProperty_fst_cong[of m' "snd (getIdProperty m)"]
    getIdProperty_again_fst[of m]
  by auto


lemma laterMap_properties_Some:
  "laterMap m m' \<Longrightarrow> properties m = Some ps \<Longrightarrow> properties m' = Some ps"
  by (auto simp: laterMap_def)

lemma laterMaps_properties_Some:
  assumes "laterMaps ms ms'" and "findMap ms mid = Some m" and "properties m = Some ps"
  shows "\<exists>m'. findMap ms' mid = Some m' \<and> properties m' = Some ps"
  using findMap_laterMaps[OF assms(1,2)] laterMap_properties_Some assms(3) by blast

lemma laterMap_filled:
  assumes "laterMap (snd (getIdProperty a)) b"
  shows "snd (getIdProperty b) = b"
proof -
  have "idProperty b = idProperty (snd (getIdProperty a))"
    using assms by (auto simp: laterMap_def getIdProperty_again_snd)
  then have "idProperty (snd (getIdProperty b)) = idProperty b"
    using getIdProperty_snd_cong[of b "snd (getIdProperty a)"]
    by (simp add: getIdProperty_again_snd)
  then show ?thesis
    using getIdProperty_snd_only[of b] by simp
qed

lemma laterMap_resolved_eq:
  assumes "laterMap (resolvedMap r p m) b"
  shows "b = resolvedMap r p m"
proof -
  have filled: "snd (getIdProperty (resolvedMap r p m)) = resolvedMap r p m"
    by (simp add: resolvedMap_def getIdProperty_again_snd)
  have "idProperty b = idProperty (resolvedMap r p m)"
    using assms filled by (auto simp: laterMap_def)
  moreover have "properties b = properties (resolvedMap r p m)"
    using assms by (auto simp: laterMap_def)
  ultimately show ?thesis
    using assms by (simp add: laterMap_def)
qed

lemma growsMaps_collection:
  assumes "growsMaps ij"
    and "injectResultInCollection_with ij r coll ms mid pa = Inr (ms', coll')"
  shows "laterMaps ms ms'"
proof -
  obtain m where found: "findMap ms mid = Some m"
    using assms(2) by (cases "findMap ms mid") (auto simp: injectResultInCollection_with_def Let_def)
  have mid: "mapId m = mid" using found by (rule findMap_mapId)
  have st: "laterMaps ms (storeMap ms (snd (getIdProperty m)))"
    using laterMaps_storeMap[of ms "snd (getIdProperty m)" m] found mid laterMap_getIdProperty
    by simp
  have "ms' = storeMap ms (snd (getIdProperty m))
      \<or> (\<exists>ob ob'. ij r ob (storeMap ms (snd (getIdProperty m))) mid (Some (prefixOrEmpty pa))
            = Inr (ms', ob'))"
    using assms(2) unfolding injectResultInCollection_with_eq[OF found]
    by (auto split: if_splits option.splits sum.splits)
  then show ?thesis
    using st assms(1) laterMaps_trans unfolding growsMaps_def by blast
qed

lemma growsMaps_copyAssociation:
  assumes "growsMaps ij"
    and "copyAssociation ij r a (ms, ob) = Inr (ms', ob')"
  shows "laterMaps ms ms'"
proof (cases "truthy (getField ob (rel_name a))")
  case True
  then have "\<exists>fs ob2. ij r fs ms (rel_mapId a) (rel_columnPrefix a) = Inr (ms', ob2)"
    using assms(2) unfolding copyAssociation_truthy_eq[OF True]
    by (fastforce split: sum.splits)
  then show ?thesis using assms(1) unfolding growsMaps_def by blast
next
  case False
  then obtain m where found: "findMap ms (rel_mapId a) = Some m"
    using assms(2) by (auto simp: copyAssociation_def Let_def split: option.splits)
  have mid: "mapId m = rel_mapId a" using found by (rule findMap_mapId)
  have st: "laterMaps ms (storeMap ms (snd (getIdProperty m)))"
    using laterMaps_storeMap[of ms "snd (getIdProperty m)" m] found mid laterMap_getIdProperty
    by simp
  have "ms' = storeMap ms (snd (getIdProperty m))
      \<or> (\<exists>fs ob2. ij r fs (storeMap ms (snd (getIdProperty m))) (rel_mapId a)
            (rel_columnPrefix a) = Inr (ms', ob2))"
    using assms(2) False found
    by (auto simp: copyAssociation_def Let_def split_beta
        split: if_splits jsval.splits sum.splits)
  then show ?thesis
    using st assms(1) laterMaps_trans unfolding growsMaps_def by blast
qed

lemma growsMaps_copyCollection:
  assumes "growsMaps ij"
    and "copyCollection ij r c (ms, ob) = Inr (ms', ob')"
  shows "laterMaps ms ms'"
proof -
  have "\<exists>items items'. injectResultInCollection_with ij r items ms (rel_mapId c)
          (rel_columnPrefix c) = Inr (ms', items')"
    using assms(2)
    by (auto simp: copyCollection_def Let_def split: jsval.splits sum.splits if_splits)
  then show ?thesis using growsMaps_collection[OF assms(1)] by blast
qed

lemma forEach_laterMaps:
  assumes "forEach f xs (ms, ob) = Inr (ms', ob')"
    and "\<And>x s s'. f x s = Inr s' \<Longrightarrow> laterMaps (fst s) (fst s')"
  shows "laterMaps ms ms'"
proof -
  have "laterMaps ms (fst (ms', ob'))"
  proof (rule forEach_invariant[OF assms(1), where P = "\<lambda>s. laterMaps ms (fst s)"])
    show "laterMaps ms (fst (ms, ob))" by simp
  next
    fix x s s'
    assume "laterMaps ms (fst s)" "f x s = Inr s'"
    then show "laterMaps ms (fst s')" using assms(2) laterMaps_trans by blast
  qed
  then show ?thesis by simp
qed

lemma forEach_laterMaps_state:
  assumes "forEach f xs s = Inr s'"
    and "\<And>x s s'. f x s = Inr s' \<Longrightarrow> laterMaps (fst s) (fst s')"
  shows "laterMaps (fst s) (fst s')"
  using forEach_laterMaps[of f xs "fst s" "snd s" "fst s'" "snd s'"] assms by simp

lemma growsMaps_body:
  assumes "growsMaps ij"
  shows "growsMaps (injectResultInObject_body ij)"
  unfolding growsMaps_def
proof (intro allI impI)
  fix r ob ms mid pa ms' ob'
  assume run: "injectResultInObject_body ij r ob ms mid pa = Inr (ms', ob')"
  obtain m where found: "findMap ms mid = Some m"
    using run by (cases "findMap ms mid") (auto simp: injectResultInObject_body_def Let_def)
  have mid: "mapId m = mid" using found by (rule findMap_mapId)
  obtain st where st: "forEach (copyAssociation ij r) (associations m)
        (storeMap ms (resolvedMap r (prefixOrEmpty pa) m), copiedFields r (prefixOrEmpty pa) m ob) = Inr st"
    and fin: "forEach (copyCollection ij r) (collections m) st = Inr (ms', ob')"
    using run unfolding injectResultInObject_body_eq[OF found] by (auto split: sum.splits)
  have mid': "mapId (resolvedMap r (prefixOrEmpty pa) m) = mid"
    using laterMap_resolvedMap[of m r "prefixOrEmpty pa"] mid by (simp add: laterMap_def)
  have s0: "laterMaps ms (storeMap ms (resolvedMap r (prefixOrEmpty pa) m))"
    using laterMaps_storeMap[of ms "resolvedMap r (prefixOrEmpty pa) m" m] found mid'
      laterMap_resolvedMap by simp
  have s1: "laterMaps (storeMap ms (resolvedMap r (prefixOrEmpty pa) m)) (fst st)"
    using forEach_laterMaps[of "copyAssociation ij r" "associations m" _ _ "fst st" "snd st"]
      st growsMaps_copyAssociation[OF assms]
    by (metis prod.collapse)
  have s2: "laterMaps (fst st) ms'"
    using forEach_laterMaps[of "copyCollection ij r" "collections m" "fst st" "snd st" ms' ob']
      fin growsMaps_copyCollection[OF assms]
    by (metis prod.collapse)
  show "laterMaps ms ms'"
    using s0 s1 s2 laterMaps_trans by blast
qed

lemma growsMaps_injectResultInObject: "growsMaps (injectResultInObject n)"
proof (induction n)
  case 0
  then show ?case by (simp add: growsMaps_def)
next
  case (Suc n)
  then show ?case by (simp add: growsMaps_body)
qed

lemma injectResultInCollection_laterMaps:
  "injectResultInCollection n r coll ms mid pa = Inr (ms', coll') \<Longrightarrow> laterMaps ms ms'"
  unfolding injectResultInCollection_def
  using growsMaps_collection[OF growsMaps_injectResultInObject] by blast

lemma injectResultInObject_laterMaps:
  "injectResultInObject n r ob ms mid pa = Inr (ms', ob') \<Longrightarrow> laterMaps ms ms'"
  using growsMaps_injectResultInObject[of n] unfolding growsMaps_def by blast

lemma forEach_laterMaps_rows:
  assumes "forEach (\<lambda>result (maps', mappedCollection).
              injectResultInCollection n result mappedCollection maps' mid pa) rs (ms, coll)
           = Inr (ms', coll')"
  shows "laterMaps ms ms'"
proof (rule forEach_laterMaps[OF assms])
  fix x :: row and s s' :: "resultMap list \<times> object list"
  assume "(case s of (maps', mappedCollection) \<Rightarrow>
             injectResultInCollection n x mappedCollection maps' mid pa) = Inr s'"
  then show "laterMaps (fst s) (fst s')"
    using injectResultInCollection_laterMaps[of n x "snd s" "fst s" mid pa "fst s'" "snd s'"]
    by (simp add: split_beta)
qed

lemma map_joinjs_laterMaps:
  "map_joinjs n rs maps mid pa = Inr (maps', out) \<Longrightarrow> laterMaps maps maps'"
  unfolding map_joinjs_def by (rule forEach_laterMaps_rows)

lemma injectResultInObject_body_after_resolved:
  assumes "growsMaps ij"
    and run: "injectResultInObject_body ij r ob ms mid pa = Inr (ms', ob')"
    and found: "findMap ms mid = Some m"
  shows "laterMaps (storeMap ms (resolvedMap r (prefixOrEmpty pa) m)) ms'"
proof -
  obtain st where st: "forEach (copyAssociation ij r) (associations m)
        (storeMap ms (resolvedMap r (prefixOrEmpty pa) m), copiedFields r (prefixOrEmpty pa) m ob) = Inr st"
    and fin: "forEach (copyCollection ij r) (collections m) st = Inr (ms', ob')"
    using run unfolding injectResultInObject_body_eq[OF found] by (auto split: sum.splits)
  have s1: "laterMaps (storeMap ms (resolvedMap r (prefixOrEmpty pa) m)) (fst st)"
    using forEach_laterMaps[of "copyAssociation ij r" "associations m" _ _ "fst st" "snd st"]
      st growsMaps_copyAssociation[OF assms(1)]
    by (metis prod.collapse)
  have s2: "laterMaps (fst st) ms'"
    using forEach_laterMaps[of "copyCollection ij r" "collections m" "fst st" "snd st" ms' ob']
      fin growsMaps_copyCollection[OF assms(1)]
    by (metis prod.collapse)
  show ?thesis using s1 s2 laterMaps_trans by blast
qed

lemma collection_after_stored:
  assumes "growsMaps ij"
    and "injectResultInCollection_with ij r coll ms mid pa = Inr (ms', coll')"
    and found: "findMap ms mid = Some m"
  shows "laterMaps (storeMap ms (snd (getIdProperty m))) ms'"
proof -
  have "ms' = storeMap ms (snd (getIdProperty m))
      \<or> (\<exists>ob ob'. ij r ob (storeMap ms (snd (getIdProperty m))) mid (Some (prefixOrEmpty pa))
            = Inr (ms', ob'))"
    using assms(2) unfolding injectResultInCollection_with_eq[OF found]
    by (auto split: if_splits option.splits sum.splits)
  then show ?thesis
    using assms(1) laterMaps_refl unfolding growsMaps_def by blast
qed

lemma association_after_stored:
  assumes "growsMaps ij"
    and "copyAssociation ij r a (ms, ob) = Inr (ms', ob')"
    and falsy: "\<not> truthy (getField ob (rel_name a))"
    and found: "findMap ms (rel_mapId a) = Some am"
  shows "laterMaps (storeMap ms (snd (getIdProperty am))) ms'"
proof -
  have "ms' = storeMap ms (snd (getIdProperty am))
      \<or> (\<exists>fs fs'. ij r fs (storeMap ms (snd (getIdProperty am))) (rel_mapId a)
            (rel_columnPrefix a) = Inr (ms', fs'))"
    using assms(2) unfolding copyAssociation_falsy_eq[OF falsy found]
    by (auto split: if_splits sum.splits)
  then show ?thesis
    using assms(1) laterMaps_refl unfolding growsMaps_def by blast
qed

section \<open>Identities of a whole run\<close>


lemma set_firstOccurrences [simp]: "set (firstOccurrences xs) = set xs"
  by (simp add: firstOccurrences_def)

lemma distinct_firstOccurrences [simp]: "distinct (firstOccurrences xs)"
  by (simp add: firstOccurrences_def)




section \<open>Running again on the definitions a run has left\<close>

lemma forEach_replays:
  fixes f :: "'a \<Rightarrow> resultMap list \<times> 's \<Rightarrow> error + resultMap list \<times> 's"
  assumes run: "forEach f xs (ms, ob) = Inr (ms1, ob1)"
    and later: "laterMaps ms1 later"
    and grows: "\<And>x s s'. f x s = Inr s' \<Longrightarrow> laterMaps (fst s) (fst s')"
    and step: "\<And>x s s' l. f x s = Inr s' \<Longrightarrow> laterMaps (fst s') l \<Longrightarrow>
                 f x (l, snd s) = Inr (l, snd s')"
  shows "forEach f xs (later, ob) = Inr (later, ob1)"
  using run
proof (induction xs arbitrary: ms ob)
  case Nil
  then show ?case by simp
next
  case (Cons x xs)
  from Cons.prems obtain s1 where s1: "f x (ms, ob) = Inr s1"
    and rest: "forEach f xs s1 = Inr (ms1, ob1)"
    by (auto split: sum.splits)
  have "laterMaps (fst s1) ms1"
    using forEach_laterMaps[of f xs "fst s1" "snd s1" ms1 ob1] rest grows by simp
  then have "laterMaps (fst s1) later"
    using later laterMaps_trans by blast
  then have first: "f x (later, ob) = Inr (later, snd s1)"
    using step[OF s1] by simp
  have "forEach f xs (later, snd s1) = Inr (later, ob1)"
    using Cons.IH[of "fst s1" "snd s1"] rest by simp
  then show ?case using first by simp
qed

lemma replays_collection:
  assumes rp: "replays ij" and gr: "growsMaps ij"
    and run: "injectResultInCollection_with ij r coll ms mid pa = Inr (ms1, coll')"
    and later: "laterMaps ms1 later"
  shows "injectResultInCollection_with ij r coll later mid pa = Inr (later, coll')"
proof -
  obtain m where found: "findMap ms mid = Some m"
    using run by (cases "findMap ms mid") (auto simp: injectResultInCollection_with_def Let_def)
  let ?m' = "snd (getIdProperty m)"
  let ?s0 = "storeMap ms ?m'"
  have mid: "mapId m = mid" using found by (rule findMap_mapId)
  have f0: "findMap ?s0 mid = Some ?m'"
    using findMap_storeMap[of ms ?m' m mid] found mid by simp
  have s0_ms1: "laterMaps ?s0 ms1"
    using collection_after_stored[OF gr run found] .
  then have "laterMaps ?s0 later" using later laterMaps_trans by blast
  then obtain b where b: "findMap later mid = Some b" "laterMap ?m' b"
    using findMap_laterMaps f0 by blast
  have bf: "snd (getIdProperty b) = b" using b(2) by (rule laterMap_filled)
  have bids: "fst (getIdProperty b) = fst (getIdProperty m)"
    using laterMap_ids[OF b(2)] by (simp add: getIdProperty_again_fst)
  have bnew: "createMappedObject b = createMappedObject m"
    using b(2) by (simp add: laterMap_def createMappedObject_def)
  have bmid: "mapId b = mid" using b(1) by (rule findMap_mapId)
  have bst: "storeMap later b = later"
    using storeMap_same[of later b] b(1) bmid by simp
  have inner: "ij r ob later mid (Some (prefixOrEmpty pa)) = Inr (later, ob')"
    if "ij r ob ?s0 mid (Some (prefixOrEmpty pa)) = Inr (ms1, ob')" for ob ob'
    using rp that later unfolding replays_def by blast
  let ?p = "prefixOrEmpty pa"
  show ?thesis
  proof (cases "idPropertyNotNull r ((@) ?p) (fst (getIdProperty m))")
    case False
    then have "coll' = coll"
      using run unfolding injectResultInCollection_with_eq[OF found] by simp
    then show ?thesis
      using False by (simp add: injectResultInCollection_with_eq[OF b(1)] bf bids bst)
  next
    case True
    show ?thesis
    proof (cases "findIndex (matches (idPredicate r ?p (fst (getIdProperty m)))) coll")
      case None
      from run obtain ob' where
        1: "ij r (createMappedObject m) ?s0 mid (Some ?p) = Inr (ms1, ob')"
        and 2: "coll' = coll @ [ob']"
        using True None unfolding injectResultInCollection_with_eq[OF found]
        by (auto split: sum.splits)
      show ?thesis
        using True None 2 inner[OF 1]
        by (simp add: injectResultInCollection_with_eq[OF b(1)] bf bids bnew bst)
    next
      case (Some i)
      from run obtain ob' where
        1: "ij r (coll ! i) ?s0 mid (Some ?p) = Inr (ms1, ob')"
        and 2: "coll' = coll[i := ob']"
        using True Some unfolding injectResultInCollection_with_eq[OF found]
        by (auto split: sum.splits)
      show ?thesis
        using True Some 2 inner[OF 1]
        by (simp add: injectResultInCollection_with_eq[OF b(1)] bf bids bnew bst)
    qed
  qed
qed

lemma replays_copyCollection:
  assumes rp: "replays ij" and gr: "growsMaps ij"
    and run: "copyCollection ij r c (ms, ob) = Inr (ms1, ob')"
    and later: "laterMaps ms1 later"
  shows "copyCollection ij r c (later, ob) = Inr (later, ob')"
  using run replays_collection[OF rp gr _ later]
  by (auto simp: copyCollection_def Let_def split: jsval.splits sum.splits if_splits)

lemma replays_copyAssociation:
  assumes rp: "replays ij" and gr: "growsMaps ij"
    and run: "copyAssociation ij r a (ms, ob) = Inr (ms1, ob')"
    and later: "laterMaps ms1 later"
  shows "copyAssociation ij r a (later, ob) = Inr (later, ob')"
proof (cases "truthy (getField ob (rel_name a))")
  case True
  have inner: "ij r fs later (rel_mapId a) (rel_columnPrefix a) = Inr (later, fs')"
    if "ij r fs ms (rel_mapId a) (rel_columnPrefix a) = Inr (ms1, fs')" for fs fs'
    using rp that later unfolding replays_def by blast
  from run obtain fs' where
    1: "ij r (targetFields (getField ob (rel_name a))) ms (rel_mapId a) (rel_columnPrefix a)
          = Inr (ms1, fs')"
    and 2: "written (getField ob (rel_name a)) ob (rel_name a) fs' = Inr ob'"
    unfolding copyAssociation_truthy_eq[OF True] by (auto split: sum.splits)
  show ?thesis
    unfolding copyAssociation_truthy_eq[OF True] using inner[OF 1] 2 by simp
next
  case False
  then obtain am where found: "findMap ms (rel_mapId a) = Some am"
    using run by (cases "findMap ms (rel_mapId a)") (auto simp: copyAssociation_def Let_def)
  let ?m' = "snd (getIdProperty am)"
  let ?s0 = "storeMap ms ?m'"
  have mid: "mapId am = rel_mapId a" using found by (rule findMap_mapId)
  have f0: "findMap ?s0 (rel_mapId a) = Some ?m'"
    using findMap_storeMap[of ms ?m' am "rel_mapId a"] found mid by simp
  have s0_ms1: "laterMaps ?s0 ms1"
    using association_after_stored[OF gr run False found] .
  then have "laterMaps ?s0 later" using later laterMaps_trans by blast
  then obtain b where b: "findMap later (rel_mapId a) = Some b" "laterMap ?m' b"
    using findMap_laterMaps f0 by blast
  have bf: "snd (getIdProperty b) = b" using b(2) by (rule laterMap_filled)
  have bids: "fst (getIdProperty b) = fst (getIdProperty am)"
    using laterMap_ids[OF b(2)] by (simp add: getIdProperty_again_fst)
  have bnew: "createMappedObject b = createMappedObject am"
    using b(2) by (simp add: laterMap_def createMappedObject_def)
  have bmid: "mapId b = rel_mapId a" using b(1) by (rule findMap_mapId)
  have bst: "storeMap later b = later"
    using storeMap_same[of later b] b(1) bmid by simp
  have inner: "ij r fs later (rel_mapId a) (rel_columnPrefix a) = Inr (later, fs')"
    if "ij r fs ?s0 (rel_mapId a) (rel_columnPrefix a) = Inr (ms1, fs')" for fs fs'
    using rp that later unfolding replays_def by blast
  show ?thesis
  proof (cases "idPropertyNotNull r (plusPrefix (rel_columnPrefix a)) (fst (getIdProperty am))")
    case nn: False
    then have "ob' = setField ob (rel_name a) (Scalar Null)"
      using run unfolding copyAssociation_falsy_eq[OF False found] by simp
    then show ?thesis
      using nn by (simp add: copyAssociation_falsy_eq[OF False b(1)] bf bids bst)
  next
    case nn: True
    from run obtain fs' where
      1: "ij r (createMappedObject am) ?s0 (rel_mapId a) (rel_columnPrefix a) = Inr (ms1, fs')"
      and 2: "ob' = setField ob (rel_name a) (Obj fs')"
      using nn unfolding copyAssociation_falsy_eq[OF False found]
      by (auto split: sum.splits)
    show ?thesis
      using nn 2 inner[OF 1]
      by (simp add: copyAssociation_falsy_eq[OF False b(1)] bf bids bnew bst)
  qed
qed

lemma replays_body:
  assumes rp: "replays ij" and gr: "growsMaps ij"
  shows "replays (injectResultInObject_body ij)"
  unfolding replays_def
proof (intro allI impI)
  fix r ob ms mid pa ms1 ob' later
  assume run: "injectResultInObject_body ij r ob ms mid pa = Inr (ms1, ob')"
    and later: "laterMaps ms1 later"
  obtain m where found: "findMap ms mid = Some m"
    using run by (cases "findMap ms mid") (auto simp: injectResultInObject_body_def Let_def)
  let ?p = "prefixOrEmpty pa"
  let ?m1 = "resolvedMap r ?p m"
  let ?s0 = "storeMap ms ?m1"
  obtain st where st: "forEach (copyAssociation ij r) (associations m)
        (?s0, copiedFields r ?p m ob) = Inr st"
    and fin: "forEach (copyCollection ij r) (collections m) st = Inr (ms1, ob')"
    using run unfolding injectResultInObject_body_eq[OF found] by (auto split: sum.splits)
  have mid: "mapId m = mid" using found by (rule findMap_mapId)
  have f0: "findMap ?s0 mid = Some ?m1"
    using findMap_storeMap[of ms ?m1 m mid] found mid by simp
  have "laterMaps ?s0 ms1"
    using injectResultInObject_body_after_resolved[OF gr run found] .
  then have "laterMaps ?s0 later" using later laterMaps_trans by blast
  then obtain b where b: "findMap later mid = Some b" "laterMap ?m1 b"
    using findMap_laterMaps f0 by blast
  have beq: "b = ?m1" using b(2) by (rule laterMap_resolved_eq)
  have flater: "findMap later mid = Some ?m1" using b(1) beq by simp
  have stl: "storeMap later ?m1 = later"
    using storeMap_same[of later ?m1] flater mid by simp
  have grc: "laterMaps (fst s) (fst s')" if "copyCollection ij r x s = Inr s'" for x s s'
    using growsMaps_copyCollection[OF gr, of r x "fst s" "snd s" "fst s'" "snd s'"] that by simp
  have "laterMaps (fst st) (fst (ms1, ob'))"
    using fin grc by (rule forEach_laterMaps_state)
  then have "laterMaps (fst st) ms1" by simp
  then have st_later: "laterMaps (fst st) later"
    using later by (rule laterMaps_trans)
  have st': "forEach (copyAssociation ij r) (associations m) (?s0, copiedFields r ?p m ob)
        = Inr (fst st, snd st)" using st by simp
  have fin': "forEach (copyCollection ij r) (collections m) (fst st, snd st) = Inr (ms1, ob')"
    using fin by simp
  have a_replay: "forEach (copyAssociation ij r) (associations m)
        (later, copiedFields r ?p m ob) = Inr (later, snd st)"
  proof (rule forEach_replays[OF st' st_later])
    fix x s s' assume "copyAssociation ij r x s = Inr s'"
    then show "laterMaps (fst s) (fst s')"
      using growsMaps_copyAssociation[OF gr, of r x "fst s" "snd s" "fst s'" "snd s'"] by simp
  next
    fix x s s' l assume "copyAssociation ij r x s = Inr s'" "laterMaps (fst s') l"
    then show "copyAssociation ij r x (l, snd s) = Inr (l, snd s')"
      using replays_copyAssociation[OF rp gr, of r x "fst s" "snd s" "fst s'" "snd s'" l] by simp
  qed
  have c_replay: "forEach (copyCollection ij r) (collections m) (later, snd st)
      = Inr (later, ob')"
  proof (rule forEach_replays[OF fin' later])
    fix x s s' assume "copyCollection ij r x s = Inr s'"
    then show "laterMaps (fst s) (fst s')"
      using growsMaps_copyCollection[OF gr, of r x "fst s" "snd s" "fst s'" "snd s'"] by simp
  next
    fix x s s' l assume "copyCollection ij r x s = Inr s'" "laterMaps (fst s') l"
    then show "copyCollection ij r x (l, snd s) = Inr (l, snd s')"
      using replays_copyCollection[OF rp gr, of r x "fst s" "snd s" "fst s'" "snd s'" l] by simp
  qed
  have same_fields: "copiedFields r ?p ?m1 ob = copiedFields r ?p m ob"
    by (simp add: copiedFields_def resolvedMap_again)
  show "injectResultInObject_body ij r ob later mid pa = Inr (later, ob')"
    unfolding injectResultInObject_body_eq[OF flater]
    using a_replay c_replay
    by (simp add: resolvedMap_again stl same_fields)
qed

lemma replays_injectResultInObject: "replays (injectResultInObject n)"
proof (induction n)
  case 0
  then show ?case by (simp add: replays_def)
next
  case (Suc n)
  then show ?case using replays_body growsMaps_injectResultInObject by simp
qed

lemma map_joinjs_replays:
  assumes "map_joinjs n rs maps mid pa = Inr (maps', out)"
    and "laterMaps maps' later"
  shows "map_joinjs n rs later mid pa = Inr (later, out)"
  unfolding map_joinjs_def
proof (rule forEach_replays[OF assms(1)[unfolded map_joinjs_def] assms(2)])
  fix x :: row and s s' :: "resultMap list \<times> object list"
  assume "(case s of (maps', mappedCollection) \<Rightarrow>
             injectResultInCollection n x mappedCollection maps' mid pa) = Inr s'"
  then show "laterMaps (fst s) (fst s')"
    using injectResultInCollection_laterMaps[of n x "snd s" "fst s" mid pa "fst s'" "snd s'"]
    by (simp add: split_beta)
next
  fix x :: row and s s' :: "resultMap list \<times> object list" and l
  assume "(case s of (maps', mappedCollection) \<Rightarrow>
             injectResultInCollection n x mappedCollection maps' mid pa) = Inr s'"
    and "laterMaps (fst s') l"
  then show "(case (l, snd s) of (maps', mappedCollection) \<Rightarrow>
             injectResultInCollection n x mappedCollection maps' mid pa) = Inr (l, snd s')"
    using replays_collection[OF replays_injectResultInObject growsMaps_injectResultInObject,
        of n x "snd s" "fst s" mid pa "fst s'" "snd s'" l]
    by (simp add: split_beta injectResultInCollection_def)
qed

section \<open>Runs that return\<close>

text \<open>
  Clean names, nesting and the shape of a target are the same on every later state of the
  definitions.
\<close>

lemma findMap_laterMaps_None:
  "laterMaps ms ms' \<Longrightarrow> findMap ms k = None \<Longrightarrow> findMap ms' k = None"
  unfolding laterMaps_def
  by (induction ms ms' rule: list_all2_induct) (auto simp: findMap_def laterMap_def split: if_splits)

lemma findMap_laterMaps_relations:
  assumes "laterMaps ms ms'"
  shows "map_option associations (findMap ms' k) = map_option associations (findMap ms k)"
    and "map_option collections (findMap ms' k) = map_option collections (findMap ms k)"
proof -
  show "map_option associations (findMap ms' k) = map_option associations (findMap ms k)"
  proof (cases "findMap ms k")
    case None
    then show ?thesis using findMap_laterMaps_None[OF assms] by simp
  next
    case (Some m)
    then show ?thesis using findMap_laterMaps[OF assms Some] by (auto simp: laterMap_def)
  qed
  show "map_option collections (findMap ms' k) = map_option collections (findMap ms k)"
  proof (cases "findMap ms k")
    case None
    then show ?thesis using findMap_laterMaps_None[OF assms] by simp
  next
    case (Some m)
    then show ?thesis using findMap_laterMaps[OF assms Some] by (auto simp: laterMap_def)
  qed
qed

lemma wellNested_laterMaps:
  assumes "laterMaps ms ms'"
  shows "wellNested d ms' mid = wellNested d ms mid"
proof (induction d arbitrary: mid)
  case 0
  then show ?case by simp
next
  case (Suc d)
  show ?case
    using findMap_laterMaps_relations[OF assms, of mid] Suc
    by (cases "findMap ms mid"; cases "findMap ms' mid") auto
qed

lemma shaped_laterMaps:
  assumes "laterMaps ms ms'"
  shows "shaped d ms' mid ob = shaped d ms mid ob"
proof (induction d arbitrary: mid ob)
  case 0
  then show ?case by simp
next
  case (Suc d)
  have eq: "shaped d ms' = shaped d ms" using Suc by (intro ext) simp
  show ?case
    using findMap_laterMaps_relations[OF assms, of mid]
    by (cases "findMap ms mid"; cases "findMap ms' mid") (auto simp: eq)
qed

lemma findMap_mem: "findMap ms k = Some m \<Longrightarrow> m \<in> set ms"
  by (induction ms) (auto simp: findMap_def split: if_splits)

lemma set_storeMap: "set (storeMap ms m') \<subseteq> insert m' (set ms)"
  by (induction ms) auto

lemma allClean_storeMap: "allClean rs ms \<Longrightarrow> cleanNames rs m' \<Longrightarrow> allClean rs (storeMap ms m')"
  using set_storeMap[of ms m'] by (auto simp: allClean_def)

lemma cleanNames_getIdProperty: "cleanNames rs m \<Longrightarrow> cleanNames rs (snd (getIdProperty m))"
  by (simp add: cleanNames_def relationNames_def propertyNamesFor_def getIdProperty_again_fst
      createMappedObject_def)

lemma drop_in_endings: "drop k s \<in> set (endings s)"
proof (induction s arbitrary: k)
  case Nil
  then show ?case by simp
next
  case (Cons c cs)
  then show ?case by (cases k) auto
qed

lemma usedProperties_names:
  assumes "r \<in> set rs" and "q \<in> set (usedProperties r p m)"
  shows "name (propertyField q) \<in> set (propertyNamesFor rs m)"
proof (cases "properties m")
  case None
  then obtain c where c: "c \<in> set r" "q = FStr (drop (length p) (fst c))"
    using assms(2) by (auto simp: usedProperties_def inferProperties_def)
  then show ?thesis
    using assms(1) None drop_in_endings[of "length p" "fst c"]
    by (auto simp: propertyNamesFor_def)
next
  case (Some ps)
  then show ?thesis using assms(2) by (auto simp: usedProperties_def propertyNamesFor_def)
qed

lemma cleanNames_resolvedMap:
  assumes "cleanNames rs m" and "r \<in> set rs"
  shows "cleanNames rs (resolvedMap r p m)"
proof -
  have names: "set (propertyNamesFor rs (resolvedMap r p m)) \<subseteq> set (propertyNamesFor rs m)"
    using usedProperties_names[OF assms(2), of _ p m]
    by (auto simp: propertyNamesFor_def)
  show ?thesis
    using assms(1) names
    by (auto simp: cleanNames_def relationNames_def resolvedMap_again createMappedObject_def)
qed

text \<open>A loop returns when each step returns and keeps an invariant.\<close>

lemma forEach_completes:
  assumes "J s"
    and "\<And>x s. x \<in> set xs \<Longrightarrow> J s \<Longrightarrow> \<exists>s'. f x s = Inr s' \<and> J s'"
  shows "\<exists>s'. forEach f xs s = Inr s' \<and> J s'"
  using assms
proof (induction xs arbitrary: s)
  case Nil
  then show ?case by simp
next
  case (Cons x xs)
  obtain s1 where s1: "f x s = Inr s1" "J s1"
    using Cons.prems(2)[of x s] Cons.prems(1) by auto
  have "\<exists>s'. forEach f xs s1 = Inr s' \<and> J s'"
    using Cons.IH[OF s1(2)] Cons.prems(2) by auto
  then show ?case using s1(1) by simp
qed

lemma wellNested_findMap:
  assumes "wellNested d ms mid"
  shows "\<exists>d' m. d = Suc d' \<and> findMap ms mid = Some m"
  using assms by (cases d; cases "findMap ms mid") auto

lemma fresh_shaped:
  assumes "findMap ms mid = Some m" and "cleanNames rs m"
  shows "shaped d ms mid (createMappedObject m)"
proof (cases d)
  case 0
  then show ?thesis by simp
next
  case (Suc d')
  have "\<not> truthy (getField (createMappedObject m) (rel_name x))"
    if "x \<in> set (associations m) \<or> x \<in> set (collections m)" for x
    using assms(2) that by (auto simp: cleanNames_def relationNames_def)
  then show ?thesis
    using Suc assms(1) by (auto simp: heldObject_def heldArray_def)
qed

text \<open>One injection into a collection returns.\<close>

lemma completes_collection:
  assumes ij: "completes rs d ij"
    and r: "r \<in> set rs"
    and clean: "allClean rs ms"
    and nested: "wellNested d ms mid"
    and items: "list_all (shaped d ms mid) coll"
  shows "\<exists>ms' coll'. injectResultInCollection_with ij r coll ms mid pa = Inr (ms', coll')
           \<and> allClean rs ms' \<and> list_all (shaped d ms mid) coll'"
proof -
  obtain d' m where d: "d = Suc d'" and found: "findMap ms mid = Some m"
    using wellNested_findMap[OF nested] by blast
  let ?m' = "snd (getIdProperty m)"
  let ?s0 = "storeMap ms ?m'"
  let ?p = "prefixOrEmpty pa"
  have mid: "mapId m = mid" using found by (rule findMap_mapId)
  have cm: "cleanNames rs m" using clean findMap_mem[OF found] by (simp add: allClean_def)
  have clean0: "allClean rs ?s0"
    using allClean_storeMap[OF clean cleanNames_getIdProperty[OF cm]] .
  have later0: "laterMaps ms ?s0"
    using laterMaps_storeMap[of ms ?m' m] found mid laterMap_getIdProperty by simp
  have nested0: "wellNested d ?s0 mid"
    using nested wellNested_laterMaps[OF later0] by simp
  have inner: "\<exists>ms' ob'. ij r ob ?s0 mid (Some ?p) = Inr (ms', ob') \<and> allClean rs ms'
                  \<and> shaped d ms mid ob'"
    if "shaped d ms mid ob" for ob
  proof -
    have "shaped d ?s0 mid ob" using that shaped_laterMaps[OF later0] by simp
    then show ?thesis
      using ij r clean0 nested0 shaped_laterMaps[OF later0]
      unfolding completes_def by metis
  qed
  show ?thesis
  proof (cases "idPropertyNotNull r ((@) ?p) (fst (getIdProperty m))")
    case False
    then show ?thesis
      using clean0 items by (simp add: injectResultInCollection_with_eq[OF found])
  next
    case True
    show ?thesis
    proof (cases "findIndex (matches (idPredicate r ?p (fst (getIdProperty m)))) coll")
      case None
      obtain ms' ob' where 1: "ij r (createMappedObject m) ?s0 mid (Some ?p) = Inr (ms', ob')"
        and 2: "allClean rs ms'" "shaped d ms mid ob'"
        using inner[OF fresh_shaped[OF found cm]] by blast
      show ?thesis
        using True None 1 2 items by (simp add: injectResultInCollection_with_eq[OF found])
    next
      case (Some i)
      then have i: "i < length coll" using findIndex_Some by blast
      then have "shaped d ms mid (coll ! i)"
        using items by (simp add: list_all_length)
      then obtain ms' ob' where 1: "ij r (coll ! i) ?s0 mid (Some ?p) = Inr (ms', ob')"
        and 2: "allClean rs ms'" "shaped d ms mid ob'"
        using inner by blast
      have "list_all (shaped d ms mid) (coll[i := ob'])"
        using items 2(2) by (auto simp: list_all_iff dest: set_update_subset_insert[THEN subsetD])
      then show ?thesis
        using True Some 1 2 by (simp add: injectResultInCollection_with_eq[OF found])
    qed
  qed
qed

text \<open>One association and one collection of an injection return.\<close>

lemma completes_copyAssociation:
  assumes ij: "completes rs d ij"
    and r: "r \<in> set rs"
    and clean: "allClean rs ms"
    and nested: "wellNested d ms (rel_mapId a)"
    and held: "heldObject (shaped d ms (rel_mapId a)) (getField ob (rel_name a))"
  shows "\<exists>ms' ob'. copyAssociation ij r a (ms, ob) = Inr (ms', ob') \<and> allClean rs ms'
           \<and> heldObject (shaped d ms (rel_mapId a)) (getField ob' (rel_name a))"
proof (cases "truthy (getField ob (rel_name a))")
  case True
  then obtain fs where fs: "getField ob (rel_name a) = Obj fs" "shaped d ms (rel_mapId a) fs"
    using held by (auto simp: heldObject_def split: jsval.splits)
  obtain ms' fs' where 1: "ij r fs ms (rel_mapId a) (rel_columnPrefix a) = Inr (ms', fs')"
    and 2: "allClean rs ms'" "shaped d ms (rel_mapId a) fs'"
    using ij r clean nested fs(2) unfolding completes_def by blast
  show ?thesis
    unfolding copyAssociation_truthy_eq[OF True]
    using 1 2 fs(1)
    by (simp add: targetFields_def written_def heldObject_def getField_setField)
next
  case False
  obtain d' am where d: "d = Suc d'" and found: "findMap ms (rel_mapId a) = Some am"
    using wellNested_findMap[OF nested] by blast
  let ?m' = "snd (getIdProperty am)"
  let ?s0 = "storeMap ms ?m'"
  have mid: "mapId am = rel_mapId a" using found by (rule findMap_mapId)
  have cm: "cleanNames rs am" using clean findMap_mem[OF found] by (simp add: allClean_def)
  have clean0: "allClean rs ?s0"
    using allClean_storeMap[OF clean cleanNames_getIdProperty[OF cm]] .
  have later0: "laterMaps ms ?s0"
    using laterMaps_storeMap[of ms ?m' am] found mid laterMap_getIdProperty by simp
  have nested0: "wellNested d ?s0 (rel_mapId a)"
    using nested wellNested_laterMaps[OF later0] by simp
  show ?thesis
  proof (cases "idPropertyNotNull r (plusPrefix (rel_columnPrefix a)) (fst (getIdProperty am))")
    case nn: False
    then show ?thesis
      using clean0
      by (simp add: copyAssociation_falsy_eq[OF False found] heldObject_def getField_setField)
  next
    case nn: True
    have "shaped d ?s0 (rel_mapId a) (createMappedObject am)"
      using fresh_shaped[OF found cm] shaped_laterMaps[OF later0] by simp
    then obtain ms' fs' where
      1: "ij r (createMappedObject am) ?s0 (rel_mapId a) (rel_columnPrefix a) = Inr (ms', fs')"
      and 2: "allClean rs ms'" "shaped d ?s0 (rel_mapId a) fs'"
      using ij r clean0 nested0 unfolding completes_def by blast
    have "shaped d ms (rel_mapId a) fs'"
      using 2(2) shaped_laterMaps[OF later0] by simp
    then show ?thesis
      using nn 1 2(1)
      by (simp add: copyAssociation_falsy_eq[OF False found] heldObject_def getField_setField)
  qed
qed

lemma completes_copyCollection:
  assumes ij: "completes rs d ij"
    and r: "r \<in> set rs"
    and clean: "allClean rs ms"
    and nested: "wellNested d ms (rel_mapId c)"
    and held: "heldArray (shaped d ms (rel_mapId c)) (getField ob (rel_name c))"
  shows "\<exists>ms' ob'. copyCollection ij r c (ms, ob) = Inr (ms', ob') \<and> allClean rs ms'
           \<and> heldArray (shaped d ms (rel_mapId c)) (getField ob' (rel_name c))"
proof (cases "truthy (getField ob (rel_name c))")
  case True
  then obtain fs items where arr: "getField ob (rel_name c) = Arr fs items"
    and items: "list_all (shaped d ms (rel_mapId c)) items"
    using held by (auto simp: heldArray_def split: jsval.splits)
  obtain ms' items' where
    1: "injectResultInCollection_with ij r items ms (rel_mapId c) (rel_columnPrefix c)
          = Inr (ms', items')"
    and 2: "allClean rs ms'" "list_all (shaped d ms (rel_mapId c)) items'"
    using completes_collection[OF ij r clean nested items] by blast
  show ?thesis
    using 1 2 by (simp add: copyCollection_Arr[OF arr] heldArray_def getField_setField)
next
  case False
  obtain ms' items' where
    1: "injectResultInCollection_with ij r [] ms (rel_mapId c) (rel_columnPrefix c)
          = Inr (ms', items')"
    and 2: "allClean rs ms'" "list_all (shaped d ms (rel_mapId c)) items'"
    using completes_collection[OF ij r clean nested, of "[]" "rel_columnPrefix c"] by auto
  show ?thesis
    using False 1 2
    by (simp add: copyCollection_def Let_def heldArray_def getField_setField)
qed

text \<open>
  The two copy loops leave the association and collection fields alone, so the loops over
  the associations and the collections find the fields shaped, and an injection with one
  more level of depth returns.
\<close>

lemma relation_fields_copied:
  assumes cm: "cleanNames rs m" and r: "r \<in> set rs" and k: "k \<in> set (relationNames m)"
  shows "getField (copiedFields r p m ob) k = getField ob k"
proof -
  have notid: "k \<notin> name ` set (fst (getIdProperty m))"
    and notprop: "k \<notin> set (propertyNamesFor rs m)"
    using cm k by (auto simp: cleanNames_def)
  have 1: "getField (fold (copyId r p) (fst (getIdProperty m)) ob) k = getField ob k"
    using notid by (rule fold_copyId_other)
  have 2: "\<forall>q\<in>set (usedProperties r p m). name (propertyField q) = k \<longrightarrow>
      truthy (getField ob k) \<or> col r (p @ column (propertyField q)) = getField ob k"
    using usedProperties_names[OF r, of _ p m] notprop by auto
  show ?thesis
    unfolding copiedFields_def by (rule fold_copyProperty_keeps[OF 1 2])
qed

lemma relationNames_inj:
  assumes "distinct (relationNames m)"
    and "x \<in> set (associations m @ collections m)"
    and "y \<in> set (associations m @ collections m)"
    and "rel_name x = rel_name y"
  shows "x = y"
  using assms unfolding relationNames_def
  by (metis distinct_map inj_onD)

lemma relationNames_apart:
  assumes "distinct (relationNames m)"
    and "a \<in> set (associations m)" and "c \<in> set (collections m)"
  shows "rel_name a \<noteq> rel_name c"
  using assms unfolding relationNames_def by auto


lemma shaped_laterMaps_fun:
  "laterMaps ms ms' \<Longrightarrow> shaped d ms' mid = shaped d ms mid"
  by (rule ext) (rule shaped_laterMaps)

lemma completes_body:
  assumes ij: "completes rs d ij" and gr: "growsMaps ij"
  shows "completes rs (Suc d) (injectResultInObject_body ij)"
  unfolding completes_def
proof (intro ballI allI impI)
  fix r ob ms mid pa
  assume r: "r \<in> set rs" and clean: "allClean rs ms"
    and nested: "wellNested (Suc d) ms mid" and sh: "shaped (Suc d) ms mid ob"
  obtain m where found: "findMap ms mid = Some m"
    and na: "\<And>a. a \<in> set (associations m) \<Longrightarrow> wellNested d ms (rel_mapId a)"
    and nc: "\<And>c. c \<in> set (collections m) \<Longrightarrow> wellNested d ms (rel_mapId c)"
    using nested by (auto split: option.splits)
  let ?p = "prefixOrEmpty pa"
  let ?m1 = "resolvedMap r ?p m"
  let ?s0 = "storeMap ms ?m1"
  let ?ob2 = "copiedFields r ?p m ob"
  have mid: "mapId m = mid" using found by (rule findMap_mapId)
  have cm: "cleanNames rs m" using clean findMap_mem[OF found] by (simp add: allClean_def)
  have dist: "distinct (relationNames m)" using cm by (simp add: cleanNames_def)
  have clean0: "allClean rs ?s0"
    using allClean_storeMap[OF clean cleanNames_resolvedMap[OF cm r]] .
  have later0: "laterMaps ms ?s0"
    using laterMaps_storeMap[of ms ?m1 m] found mid laterMap_resolvedMap by simp
  have fs0: "fieldsShaped d ms m ob"
    using sh found by (simp add: fieldsShaped_def)
  have fs2: "fieldsShaped d ms m ?ob2"
    using fs0 relation_fields_copied[OF cm r, of _ ?p ob]
    by (simp add: fieldsShaped_def relationNames_def)
  define J where "J = (\<lambda>s :: resultMap list \<times> object.
      allClean rs (fst s) \<and> laterMaps ms (fst s) \<and> fieldsShaped d ms m (snd s))"
  have J0: "J (?s0, ?ob2)" using clean0 later0 fs2 by (simp add: J_def)
  have stepA: "\<exists>s'. copyAssociation ij r a s = Inr s' \<and> J s'"
    if a: "a \<in> set (associations m)" and Js: "J s" for a s
  proof -
    obtain msc obc where s: "s = (msc, obc)" by (cases s)
    have c: "allClean rs msc" and l: "laterMaps ms msc" and f: "fieldsShaped d ms m obc"
      using Js by (simp_all add: J_def s)
    have eqf: "\<And>k. shaped d msc k = shaped d ms k" using shaped_laterMaps_fun[OF l] .
    have n: "wellNested d msc (rel_mapId a)" using na[OF a] wellNested_laterMaps[OF l] by simp
    have h: "heldObject (shaped d msc (rel_mapId a)) (getField obc (rel_name a))"
      using f a by (simp add: fieldsShaped_def eqf)
    obtain ms' ob' where 1: "copyAssociation ij r a (msc, obc) = Inr (ms', ob')"
      and 2: "allClean rs ms'"
      and 3: "heldObject (shaped d msc (rel_mapId a)) (getField ob' (rel_name a))"
      using completes_copyAssociation[OF ij r c n h] by blast
    have l': "laterMaps ms ms'"
      using laterMaps_trans[OF l growsMaps_copyAssociation[OF gr 1]] .
    have other: "\<And>k. k \<noteq> rel_name a \<Longrightarrow> getField ob' k = getField obc k"
      using copyAssociation_other[OF 1] .
    have "fieldsShaped d ms m ob'"
      unfolding fieldsShaped_def
    proof (intro conjI ballI)
      fix x assume x: "x \<in> set (associations m)"
      show "heldObject (shaped d ms (rel_mapId x)) (getField ob' (rel_name x))"
      proof (cases "rel_name x = rel_name a")
        case True
        then have "x = a" using relationNames_inj[OF dist, of x a] x a by simp
        then show ?thesis using 3 by (simp add: eqf)
      next
        case False
        then show ?thesis using other[of "rel_name x"] f x by (simp add: fieldsShaped_def)
      qed
    next
      fix x assume x: "x \<in> set (collections m)"
      have "rel_name x \<noteq> rel_name a" using relationNames_apart[OF dist a x] by simp
      then show "heldArray (shaped d ms (rel_mapId x)) (getField ob' (rel_name x))"
        using other[of "rel_name x"] f x by (simp add: fieldsShaped_def)
    qed
    then show ?thesis using 1 2 l' by (simp add: J_def s)
  qed
  have stepC: "\<exists>s'. copyCollection ij r c s = Inr s' \<and> J s'"
    if c: "c \<in> set (collections m)" and Js: "J s" for c s
  proof -
    obtain msc obc where s: "s = (msc, obc)" by (cases s)
    have cl: "allClean rs msc" and l: "laterMaps ms msc" and f: "fieldsShaped d ms m obc"
      using Js by (simp_all add: J_def s)
    have eqf: "\<And>k. shaped d msc k = shaped d ms k" using shaped_laterMaps_fun[OF l] .
    have n: "wellNested d msc (rel_mapId c)" using nc[OF c] wellNested_laterMaps[OF l] by simp
    have h: "heldArray (shaped d msc (rel_mapId c)) (getField obc (rel_name c))"
      using f c by (simp add: fieldsShaped_def eqf)
    obtain ms' ob' where 1: "copyCollection ij r c (msc, obc) = Inr (ms', ob')"
      and 2: "allClean rs ms'"
      and 3: "heldArray (shaped d msc (rel_mapId c)) (getField ob' (rel_name c))"
      using completes_copyCollection[OF ij r cl n h] by blast
    have l': "laterMaps ms ms'"
      using laterMaps_trans[OF l growsMaps_copyCollection[OF gr 1]] .
    have other: "\<And>k. k \<noteq> rel_name c \<Longrightarrow> getField ob' k = getField obc k"
      using copyCollection_other[OF 1] .
    have "fieldsShaped d ms m ob'"
      unfolding fieldsShaped_def
    proof (intro conjI ballI)
      fix x assume x: "x \<in> set (collections m)"
      show "heldArray (shaped d ms (rel_mapId x)) (getField ob' (rel_name x))"
      proof (cases "rel_name x = rel_name c")
        case True
        then have "x = c" using relationNames_inj[OF dist, of x c] x c by simp
        then show ?thesis using 3 by (simp add: eqf)
      next
        case False
        then show ?thesis using other[of "rel_name x"] f x by (simp add: fieldsShaped_def)
      qed
    next
      fix x assume x: "x \<in> set (associations m)"
      have "rel_name x \<noteq> rel_name c" using relationNames_apart[OF dist x c] by simp
      then show "heldObject (shaped d ms (rel_mapId x)) (getField ob' (rel_name x))"
        using other[of "rel_name x"] f x by (simp add: fieldsShaped_def)
    qed
    then show ?thesis using 1 2 l' by (simp add: J_def s)
  qed
  obtain s1 where s1: "forEach (copyAssociation ij r) (associations m) (?s0, ?ob2) = Inr s1"
    and J1: "J s1"
    using forEach_completes[of J "(?s0, ?ob2)" "associations m" "copyAssociation ij r", OF J0 stepA]
    by blast
  obtain s2 where s2: "forEach (copyCollection ij r) (collections m) s1 = Inr s2"
    and J2: "J s2"
    using forEach_completes[of J s1 "collections m" "copyCollection ij r", OF J1 stepC]
    by blast
  have run: "injectResultInObject_body ij r ob ms mid pa = Inr (fst s2, snd s2)"
    unfolding injectResultInObject_body_eq[OF found] using s1 s2 by simp
  have sh2: "shaped (Suc d) ms mid (snd s2)"
    using J2 found by (simp add: J_def fieldsShaped_def)
  have cl2: "allClean rs (fst s2)" using J2 by (simp add: J_def)
  show "\<exists>ms' ob'. injectResultInObject_body ij r ob ms mid pa = Inr (ms', ob')
      \<and> allClean rs ms' \<and> shaped (Suc d) ms mid ob'"
    using run sh2 cl2 by blast
qed

lemma completes_injectResultInObject: "completes rs d (injectResultInObject d)"
proof (induction d)
  case 0
  then show ?case by (simp add: completes_def)
next
  case (Suc d)
  then show ?case
    using completes_body[OF Suc growsMaps_injectResultInObject] by simp
qed



lemma copyCollection_returns:
  assumes "r \<in> set rs" and "allClean rs ms" and "wellNested n ms (rel_mapId c)"
    and "heldArray (shaped n ms (rel_mapId c)) (getField ob (rel_name c))"
  shows "\<exists>ms' ob'. copyCollection (injectResultInObject n) r c (ms, ob) = Inr (ms', ob')"
  using completes_copyCollection[OF completes_injectResultInObject assms] by blast


section \<open>The parent/child scenario\<close>

text \<open>The expected result of the scenario, with the child properties inferred on the way.\<close>

lemmas mapper_defs =
  map_joinjs_def injectResultInCollection_def injectResultInCollection_with_def
  injectResultInObject_body_def findMap_def prefixOrEmpty_def plusPrefix_def
  idPredicate_def matches_def idPropertyNotNull_def col_def getField_def inherited_def
  objectPrototype_def
  createMappedObject_def copyId_def copyProperty_def copyCollection_def copyAssociation_def
  inferProperties_def startsWith_def mapOne_def NotFoundError_def getIdProperty_def

lemma family_run:
  "map_joinjs 2 familyRows [parentMap, childMap] ''parent'' None =
     Inr ([parentMap, childMapInferred], familyObjects)"
  by (simp add: mapper_defs familyRows_def parentMap_def childMap_def childMapInferred_def
      familyObjects_def eval_nat_numeral)





section \<open>The claims\<close>

text \<open>
  Claim C1 says that a field a row has populated is left unchanged by every later row with
  the same identity key (first write wins). The guards of lines 150 and 169 test the field
  for truthiness, not for presence, so a field holding \<open>0\<close>, the empty string,
  \<open>false\<close>, \<open>null\<close> or \<open>undefined\<close> is written again by each later row. Here
  the first row sets \<open>qty\<close> to 0, and the second row, with the same \<open>id\<close>, replaces
  it by 5. The comment of line 168 (copy only if the property does not exist already)
  describes what the claim says, not what the guard does.
\<close>

theorem falsy_property_is_rewritten:
  "map_joinjs 1 [[(''id'', Num 1), (''qty'', Num 0)]] [itemMap] ''item'' None
     = Inr ([itemMap], [[(''id'', Scalar (Num 1)), (''qty'', Scalar (Num 0))]])
   \<and> map_joinjs 1 [[(''id'', Num 1), (''qty'', Num 0)], [(''id'', Num 1), (''qty'', Num 5)]]
        [itemMap] ''item'' None
     = Inr ([itemMap], [[(''id'', Scalar (Num 1)), (''qty'', Scalar (Num 5))]])"
  by (simp add: mapper_defs itemMap_def Let_def)




text \<open>
  Claim C3, as stated, fails in its last clause: a caller cannot give \<open>mapOne\<close> a
  message. The function reads \<open>arguments[4]\<close> and nothing beyond it, and line 62
  passes the constant \<open>EmptyResponse\<close>; a message passed as a further argument is
  ignored.
\<close>

theorem mapOne_ignores_message_counterexample:
  "mapOne 0 [] [] ''parent'' None (Some True) [Scalar (Str ''No parent'')]
     = Inl (NotFound ''EmptyResponse'')
   \<and> mapOne 0 [] [] ''parent'' None (Some True) [Scalar (Str ''No parent'')]
     \<noteq> Inl (NotFound ''No parent'')"
  by (simp add: mapOne_def map_joinjs_Nil NotFoundError_def)

text \<open>
  Claim C3, amended. \<open>mapOne\<close> runs \<open>map\<close> on the whole result set. A
  non-empty result gives its first element; an empty one gives the NotFoundError with
  the message \<open>EmptyResponse\<close> when the required flag is set or left out (it
  defaults to true), and null when the flag is false. An error of \<open>map\<close> is
  passed on. The message is \<open>EmptyResponse\<close> whatever else the caller passes: the
  result does not depend on the further arguments. Only the constructor
  \<open>NotFoundError\<close> takes a message, with the default \<open>Not Found\<close>.
\<close>

theorem mapOne_first_or_NotFound:
  "(map_joinjs n rs maps mid p = Inr (maps', x # xs) \<longrightarrow>
      mapOne n rs maps mid p req extra = Inr (maps', Obj x))
   \<and> (map_joinjs n rs maps mid p = Inr (maps', []) \<and> req \<noteq> Some False \<longrightarrow>
      mapOne n rs maps mid p req extra = Inl (NotFound ''EmptyResponse''))
   \<and> (map_joinjs n rs maps mid p = Inr (maps', []) \<and> req = Some False \<longrightarrow>
      mapOne n rs maps mid p req extra = Inr (maps', Scalar Null))
   \<and> (map_joinjs n rs maps mid p = Inl e \<longrightarrow> mapOne n rs maps mid p req extra = Inl e)
   \<and> mapOne n [] maps mid p None extra = Inl (NotFound ''EmptyResponse'')
   \<and> mapOne n [] maps mid p None extra = Inl (NotFoundError (Some ''EmptyResponse''))
   \<and> mapOne n [] maps mid p (Some False) extra = Inr (maps, Scalar Null)
   \<and> mapOne n rs maps mid p req extra = mapOne n rs maps mid p req []
   \<and> NotFoundError None = NotFound ''Not Found''
   \<and> (\<forall>message. NotFoundError (Some message) = NotFound message)"
  by (cases req) (auto simp: mapOne_def NotFoundError_def map_joinjs_Nil)

text \<open>The three outcomes on the parent/child configuration.\<close>

theorem mapOne_first_or_NotFound_witness:
  "mapOne 2 familyRows [parentMap, childMap] ''parent'' None None [] =
     Inr ([parentMap, childMapInferred],
       Obj [(''id'', Scalar (Num 1)), (''name'', Scalar (Str ''A'')),
            (''children'', Arr [] [[(''id'', Scalar (Num 10)), (''name'', Scalar (Str ''X''))],
                                   [(''id'', Scalar (Num 11)), (''name'', Scalar (Str ''Y''))]])])
   \<and> mapOne 2 [] [parentMap, childMap] ''parent'' None (Some True) [Scalar (Str ''No parent'')]
       = Inl (NotFound ''EmptyResponse'')
   \<and> mapOne 2 [] [parentMap, childMap] ''parent'' None (Some False) []
       = Inr ([parentMap, childMap], Scalar Null)"
  using mapOne_first_or_NotFound[of 2 familyRows "[parentMap, childMap]" "''parent''" None
          "[parentMap, childMapInferred]" "hd familyObjects" "tl familyObjects" None "[]"]
        mapOne_first_or_NotFound[of 2 "[]" "[parentMap, childMap]" "''parent''" None
          "[parentMap, childMap]" _ _ "Some True" "[Scalar (Str ''No parent'')]"]
        mapOne_first_or_NotFound[of 2 "[]" "[parentMap, childMap]" "''parent''" None
          "[parentMap, childMap]" _ _ "Some False" "[]"]
  by (simp add: family_run map_joinjs_Nil familyObjects_def)

text \<open>
  Claim C4 says that a row with a null identity column of an association leaves the
  association field null and creates no object. Line 193 builds the column name as
  \<open>association.columnPrefix + field.column\<close>. For an association without
  columnPrefix that is the string \<open>undefined\<close> followed by the column: the row has no
  such column, the lookup is \<open>undefined\<close>, the check passes and an object is created,
  which the recursive call (its prefix defaulted to the empty string at line 127) then
  fills with the null identity. With the empty prefix written out, the same row gives
  null, as the claim says.
\<close>

theorem association_without_prefix_created_on_null:
  "map_joinjs 2 [[(''id'', Num 1), (''pet_id'', Null)]] [ownerMap None, petMap] ''owner'' None
     = Inr ([ownerMap None, petMap],
            [[(''id'', Scalar (Num 1)), (''pet'', Obj [(''pet_id'', Scalar Null)])]])
   \<and> map_joinjs 2 [[(''id'', Num 1), (''pet_id'', Null)]] [ownerMap (Some []), petMap] ''owner'' None
     = Inr ([ownerMap (Some []), petMap],
            [[(''id'', Scalar (Num 1)), (''pet'', Scalar Null)]])"
  by (simp add: mapper_defs ownerMap_def petMap_def eval_nat_numeral Let_def)

text \<open>
  Claim C5. \<open>map\<close> on an empty result set returns an empty sequence, for every
  configuration. When the definition of the mapId is present and every row has a null in
  one of its identity columns under the prefix, \<open>map\<close> returns an empty sequence and
  raises nothing, whatever depth of recursion is allowed. One such row leaves any
  collection it is injected into as it was: no object is created from it.
\<close>

theorem map_empty_or_null_identity:
  "map_joinjs n [] maps mid p = Inr (maps, [])
   \<and> (findMap maps mid = Some m \<longrightarrow>
        (\<forall>result\<in>set rs. \<exists>fld\<in>set (fst (getIdProperty m)).
            col result (prefixOrEmpty p @ column fld) = Scalar Null) \<longrightarrow>
        (\<exists>maps'. map_joinjs n rs maps mid p = Inr (maps', [])))
   \<and> (findMap maps mid = Some m \<longrightarrow>
        (\<exists>fld\<in>set (fst (getIdProperty m)). col result (prefixOrEmpty p @ column fld) = Scalar Null) \<longrightarrow>
        (\<exists>maps'. injectResultInCollection n result coll maps mid p = Inr (maps', coll)))"
proof (intro conjI impI)
  show "map_joinjs n [] maps mid p = Inr (maps, [])"
    by (rule map_joinjs_Nil)
next
  assume "findMap maps mid = Some m"
    and "\<forall>result\<in>set rs. \<exists>fld\<in>set (fst (getIdProperty m)).
            col result (prefixOrEmpty p @ column fld) = Scalar Null"
  then show "\<exists>maps'. map_joinjs n rs maps mid p = Inr (maps', [])"
    unfolding map_joinjs_def using forEach_null_ids[of maps mid m rs p n "[]"] by blast
next
  assume "findMap maps mid = Some m"
    and "\<exists>fld\<in>set (fst (getIdProperty m)). col result (prefixOrEmpty p @ column fld) = Scalar Null"
  then show "\<exists>maps'. injectResultInCollection n result coll maps mid p = Inr (maps', coll)"
    using injectResultInCollection_null_id by blast
qed

text \<open>Two rows with a null \<open>id\<close>, with recursion depth zero.\<close>

theorem map_empty_or_null_identity_witness:
  "findMap [parentMap, childMap] ''parent'' = Some parentMap
   \<and> (\<exists>maps'. map_joinjs 0 [[(''id'', Null), (''name'', Str ''A'')], [(''id'', Null), (''name'', Str ''B'')]]
          [parentMap, childMap] ''parent'' None = Inr (maps', []))
   \<and> (\<exists>maps'. injectResultInCollection 0 [(''id'', Null), (''name'', Str ''A'')]
          [[(''id'', Scalar (Num 1))]] [parentMap, childMap] ''parent'' None
          = Inr (maps', [[(''id'', Scalar (Num 1))]]))"
proof -
  have f: "findMap [parentMap, childMap] ''parent'' = Some parentMap"
    by (simp add: findMap_def parentMap_def)
  have ids: "fst (getIdProperty parentMap) = [\<lparr>name = ''id'', column = ''id''\<rparr>]"
    by (simp add: getIdProperty_def parentMap_def)
  have nulls: "\<forall>result\<in>set [[(''id'', Null), (''name'', Str ''A'')], [(''id'', Null), (''name'', Str ''B'')]].
         \<exists>fld\<in>set (fst (getIdProperty parentMap)). col result (prefixOrEmpty None @ column fld) = Scalar Null"
    by (simp add: ids col_def prefixOrEmpty_def)
  have null1: "\<exists>fld\<in>set (fst (getIdProperty parentMap)).
      col [(''id'', Null), (''name'', Str ''A'')] (prefixOrEmpty None @ column fld) = Scalar Null"
    by (simp add: ids col_def prefixOrEmpty_def)
  show ?thesis
    using f nulls null1
      map_empty_or_null_identity[of 0 "[parentMap, childMap]" "''parent''" None parentMap
        "[[(''id'', Null), (''name'', Str ''A'')], [(''id'', Null), (''name'', Str ''B'')]]"
        "[(''id'', Null), (''name'', Str ''A'')]" "[[(''id'', Scalar (Num 1))]]"]
    by blast
qed




text \<open>
  Claim C7, as stated, fails: \<open>getIdProperty\<close> is not free of side effects. For an
  identity given as an object without \<open>column\<close>, line 246 assigns the column on the
  object held by the definition.
\<close>

theorem getIdProperty_fills_column_counterexample:
  "snd (getIdProperty keyedMap) \<noteq> keyedMap"
  by (simp add: getIdProperty_def keyedMap_def)

text \<open>
  Claim C7, amended. \<open>getIdProperty\<close> yields the list of name/column pairs: the
  single pair \<open>id\<close>/\<open>id\<close> for an absent (or empty-string) idProperty, name and
  column both the string for a bare non-empty string, the column defaulted to the name
  for an object whose column is absent or empty, entry by entry and of the same length for
  an array. A second call returns the same list and changes nothing further. The call
  changes nothing of the definition but its idProperty, and what it leaves there is this:
  an absent idProperty and a bare string stay as they are; an object without column, or
  with an empty one, has its column set to its name; an object with a column stays as it
  is; in an array each entry is treated so, a bare string staying a bare string. So a
  definition whose entries all carry their column is left as it was.
\<close>

theorem getIdProperty_normalizes:
  "(idProperty m = None \<longrightarrow> fst (getIdProperty m) = [\<lparr>name = ''id'', column = ''id''\<rparr>])
   \<and> (idProperty m = Some (Single (FStr [])) \<longrightarrow>
        fst (getIdProperty m) = [\<lparr>name = ''id'', column = ''id''\<rparr>])
   \<and> (idProperty m = Some (Single (FStr s)) \<and> s \<noteq> [] \<longrightarrow>
        fst (getIdProperty m) = [\<lparr>name = s, column = s\<rparr>])
   \<and> (idProperty m = Some (Single (FObj nm None)) \<longrightarrow>
        fst (getIdProperty m) = [\<lparr>name = nm, column = nm\<rparr>])
   \<and> (idProperty m = Some (Single (FObj nm (Some []))) \<longrightarrow>
        fst (getIdProperty m) = [\<lparr>name = nm, column = nm\<rparr>])
   \<and> (idProperty m = Some (Single (FObj nm (Some c))) \<and> c \<noteq> [] \<longrightarrow>
        fst (getIdProperty m) = [\<lparr>name = nm, column = c\<rparr>])
   \<and> (idProperty m = Some (Many ss) \<longrightarrow>
        fst (getIdProperty m) = map idField ss
        \<and> length (fst (getIdProperty m)) = length ss
        \<and> (\<forall>i < length ss. ss ! i = FObj nm None \<longrightarrow>
              fst (getIdProperty m) ! i = \<lparr>name = nm, column = nm\<rparr>)
        \<and> (\<forall>i < length ss. ss ! i = FObj nm (Some []) \<longrightarrow>
              fst (getIdProperty m) ! i = \<lparr>name = nm, column = nm\<rparr>)
        \<and> (\<forall>i < length ss. ss ! i = FStr s \<longrightarrow>
              fst (getIdProperty m) ! i = \<lparr>name = s, column = s\<rparr>)
        \<and> (\<forall>i < length ss. ss ! i = FObj nm (Some c) \<and> c \<noteq> [] \<longrightarrow>
              fst (getIdProperty m) ! i = \<lparr>name = nm, column = c\<rparr>))
   \<and> getIdProperty (snd (getIdProperty m)) = (fst (getIdProperty m), snd (getIdProperty m))
   \<and> snd (getIdProperty m) = m\<lparr>idProperty := idProperty (snd (getIdProperty m))\<rparr>
   \<and> ((\<forall>spec. (idProperty m = Some (Single spec) \<or> (\<exists>ss. idProperty m = Some (Many ss) \<and> spec \<in> set ss))
          \<longrightarrow> idFilled spec = spec) \<longrightarrow> snd (getIdProperty m) = m)
   \<and> (idProperty m = None \<longrightarrow> snd (getIdProperty m) = m)
   \<and> (idProperty m = Some (Single (FStr s)) \<longrightarrow> snd (getIdProperty m) = m)
   \<and> (idProperty m = Some (Single (FObj nm None)) \<longrightarrow>
        snd (getIdProperty m) = m\<lparr>idProperty := Some (Single (FObj nm (Some nm)))\<rparr>)
   \<and> (idProperty m = Some (Single (FObj nm (Some []))) \<longrightarrow>
        snd (getIdProperty m) = m\<lparr>idProperty := Some (Single (FObj nm (Some nm)))\<rparr>)
   \<and> (idProperty m = Some (Single (FObj nm (Some c))) \<and> c \<noteq> [] \<longrightarrow>
        snd (getIdProperty m) = m)
   \<and> (idProperty m = Some (Many ss) \<longrightarrow>
        (\<exists>ss'. snd (getIdProperty m) = m\<lparr>idProperty := Some (Many ss')\<rparr>
           \<and> length ss' = length ss
           \<and> (\<forall>i < length ss.
                 (\<forall>t. ss ! i = FStr t \<longrightarrow> ss' ! i = FStr t)
               \<and> (\<forall>k. ss ! i = FObj k None \<longrightarrow> ss' ! i = FObj k (Some k))
               \<and> (\<forall>k. ss ! i = FObj k (Some []) \<longrightarrow> ss' ! i = FObj k (Some k))
               \<and> (\<forall>k d. ss ! i = FObj k (Some d) \<and> d \<noteq> [] \<longrightarrow> ss' ! i = FObj k (Some d)))))"
proof -
  have again: "getIdProperty (snd (getIdProperty m)) = (fst (getIdProperty m), snd (getIdProperty m))"
    by (simp add: prod_eq_iff getIdProperty_again_fst getIdProperty_again_snd)
  have only: "snd (getIdProperty m) = m\<lparr>idProperty := idProperty (snd (getIdProperty m))\<rparr>"
    by (auto simp: getIdProperty_def split: option.splits idSpec.splits)
  have same: "(\<forall>spec. (idProperty m = Some (Single spec) \<or> (\<exists>ss. idProperty m = Some (Many ss) \<and> spec \<in> set ss))
          \<longrightarrow> idFilled spec = spec) \<longrightarrow> snd (getIdProperty m) = m"
  proof
    assume h: "\<forall>spec. (idProperty m = Some (Single spec) \<or> (\<exists>ss. idProperty m = Some (Many ss) \<and> spec \<in> set ss))
          \<longrightarrow> idFilled spec = spec"
    show "snd (getIdProperty m) = m"
    proof (cases "idProperty m")
      case None
      then show ?thesis by (simp add: getIdProperty_def)
    next
      case (Some sp)
      show ?thesis
      proof (cases sp)
        case (Single spec)
        then have "idFilled spec = spec" using h Some by blast
        then show ?thesis using Some Single by (simp add: getIdProperty_def)
      next
        case (Many ss)
        then have "map idFilled ss = ss" using h Some by (simp add: map_idI)
        then show ?thesis using Some Many by (simp add: getIdProperty_def)
      qed
    qed
  qed
  have many: "idProperty m = Some (Many ss) \<longrightarrow>
        (\<exists>ss'. snd (getIdProperty m) = m\<lparr>idProperty := Some (Many ss')\<rparr>
           \<and> length ss' = length ss
           \<and> (\<forall>i < length ss.
                 (\<forall>t. ss ! i = FStr t \<longrightarrow> ss' ! i = FStr t)
               \<and> (\<forall>k. ss ! i = FObj k None \<longrightarrow> ss' ! i = FObj k (Some k))
               \<and> (\<forall>k. ss ! i = FObj k (Some []) \<longrightarrow> ss' ! i = FObj k (Some k))
               \<and> (\<forall>k d. ss ! i = FObj k (Some d) \<and> d \<noteq> [] \<longrightarrow> ss' ! i = FObj k (Some d))))"
  proof
    assume "idProperty m = Some (Many ss)"
    then have "snd (getIdProperty m) = m\<lparr>idProperty := Some (Many (map idFilled ss))\<rparr>"
      by (simp add: getIdProperty_def)
    then show "\<exists>ss'. snd (getIdProperty m) = m\<lparr>idProperty := Some (Many ss')\<rparr>
           \<and> length ss' = length ss
           \<and> (\<forall>i < length ss.
                 (\<forall>t. ss ! i = FStr t \<longrightarrow> ss' ! i = FStr t)
               \<and> (\<forall>k. ss ! i = FObj k None \<longrightarrow> ss' ! i = FObj k (Some k))
               \<and> (\<forall>k. ss ! i = FObj k (Some []) \<longrightarrow> ss' ! i = FObj k (Some k))
               \<and> (\<forall>k d. ss ! i = FObj k (Some d) \<and> d \<noteq> [] \<longrightarrow> ss' ! i = FObj k (Some d)))"
      by (intro exI[of _ "map idFilled ss"]) simp
  qed
  have single: "(idProperty m = None \<longrightarrow> snd (getIdProperty m) = m)
   \<and> (idProperty m = Some (Single (FStr s)) \<longrightarrow> snd (getIdProperty m) = m)
   \<and> (idProperty m = Some (Single (FObj nm None)) \<longrightarrow>
        snd (getIdProperty m) = m\<lparr>idProperty := Some (Single (FObj nm (Some nm)))\<rparr>)
   \<and> (idProperty m = Some (Single (FObj nm (Some []))) \<longrightarrow>
        snd (getIdProperty m) = m\<lparr>idProperty := Some (Single (FObj nm (Some nm)))\<rparr>)
   \<and> (idProperty m = Some (Single (FObj nm (Some c))) \<and> c \<noteq> [] \<longrightarrow>
        snd (getIdProperty m) = m)"
    by (auto simp: getIdProperty_def)
  have lists: "(idProperty m = None \<longrightarrow> fst (getIdProperty m) = [\<lparr>name = ''id'', column = ''id''\<rparr>])
   \<and> (idProperty m = Some (Single (FStr [])) \<longrightarrow>
        fst (getIdProperty m) = [\<lparr>name = ''id'', column = ''id''\<rparr>])
   \<and> (idProperty m = Some (Single (FStr s)) \<and> s \<noteq> [] \<longrightarrow>
        fst (getIdProperty m) = [\<lparr>name = s, column = s\<rparr>])
   \<and> (idProperty m = Some (Single (FObj nm None)) \<longrightarrow>
        fst (getIdProperty m) = [\<lparr>name = nm, column = nm\<rparr>])
   \<and> (idProperty m = Some (Single (FObj nm (Some []))) \<longrightarrow>
        fst (getIdProperty m) = [\<lparr>name = nm, column = nm\<rparr>])
   \<and> (idProperty m = Some (Single (FObj nm (Some c))) \<and> c \<noteq> [] \<longrightarrow>
        fst (getIdProperty m) = [\<lparr>name = nm, column = c\<rparr>])
   \<and> (idProperty m = Some (Many ss) \<longrightarrow>
        fst (getIdProperty m) = map idField ss
        \<and> length (fst (getIdProperty m)) = length ss
        \<and> (\<forall>i < length ss. ss ! i = FObj nm None \<longrightarrow>
              fst (getIdProperty m) ! i = \<lparr>name = nm, column = nm\<rparr>)
        \<and> (\<forall>i < length ss. ss ! i = FObj nm (Some []) \<longrightarrow>
              fst (getIdProperty m) ! i = \<lparr>name = nm, column = nm\<rparr>)
        \<and> (\<forall>i < length ss. ss ! i = FStr s \<longrightarrow>
              fst (getIdProperty m) ! i = \<lparr>name = s, column = s\<rparr>)
        \<and> (\<forall>i < length ss. ss ! i = FObj nm (Some c) \<and> c \<noteq> [] \<longrightarrow>
              fst (getIdProperty m) ! i = \<lparr>name = nm, column = c\<rparr>))"
    by (auto simp: getIdProperty_def)
  show ?thesis
    using lists again only same single many
    apply -
    apply (elim conjE)
    apply (intro conjI)
                   apply assumption+
    done
qed

text \<open>The default, a single object without column, a composite identity with a bare
  string, and a bare string alone.\<close>

theorem getIdProperty_normalizes_witness:
  "fst (getIdProperty parentMap) = [\<lparr>name = ''id'', column = ''id''\<rparr>]
   \<and> fst (getIdProperty keyedMap) = [\<lparr>name = ''key'', column = ''key''\<rparr>]
   \<and> fst (getIdProperty pairMap) =
        [\<lparr>name = ''a'', column = ''a''\<rparr>, \<lparr>name = ''b'', column = ''b_col''\<rparr>,
         \<lparr>name = ''c'', column = ''c''\<rparr>]
   \<and> snd (getIdProperty parentMap) = parentMap
   \<and> snd (getIdProperty keyedMap) = keyedMap\<lparr>idProperty := Some (Single (FObj ''key'' (Some ''key'')))\<rparr>
   \<and> snd (getIdProperty pairMap) =
        pairMap\<lparr>idProperty :=
          Some (Many [FStr ''a'', FObj ''b'' (Some ''b_col''), FObj ''c'' (Some ''c'')])\<rparr>
   \<and> snd (getIdProperty petMap) = petMap"
  using getIdProperty_normalizes[of parentMap] getIdProperty_normalizes[of keyedMap _ "''key''"]
    getIdProperty_normalizes[of pairMap] getIdProperty_normalizes[of petMap "''pet_id''"]
  by (simp add: parentMap_def keyedMap_def pairMap_def petMap_def getIdProperty_def)

text \<open>
  Claim C8. An injection into an object of a definition without properties leaves the
  definition with the list inferred from the row: its column names that start with the
  active prefix, the prefix dropped, as bare strings, each of which is read as name and
  column alike. The fields are copied from the stored list when there is one and from the
  inferred list otherwise. A definition that has a list keeps it through every later
  injection into an object or a collection and through a whole run of \<open>map\<close>, for
  any row, mapId and prefix.
\<close>

theorem properties_inferred_once:
  assumes "findMap maps mid = Some m"
    and "p = prefixOrEmpty pa"
  shows "(properties m = None \<longrightarrow>
            injectResultInObject (Suc n) r ob maps mid pa = Inr (maps', ob') \<longrightarrow>
            (\<exists>m'. findMap maps' mid = Some m'
               \<and> properties m' =
                   Some (map (\<lambda>f. FStr (drop (length p) f))
                          (filter (\<lambda>f. startsWith f p) (map fst r)))))
     \<and> (\<forall>f. propertyField (FStr f) = \<lparr>name = f, column = f\<rparr>)
     \<and> injectResultInObject (Suc n) r ob maps mid pa =
         (case forEach (copyAssociation (injectResultInObject n) r) (associations m)
                 (storeMap maps (resolvedMap r p m),
                  fold (copyProperty r p)
                    (case properties m of None \<Rightarrow> inferProperties r p | Some ps \<Rightarrow> ps)
                    (fold (copyId r p) (fst (getIdProperty m)) ob)) of
            Inl e \<Rightarrow> Inl e
          | Inr st \<Rightarrow> forEach (copyCollection (injectResultInObject n) r) (collections m) st)
     \<and> (properties m = Some ps \<longrightarrow>
          (injectResultInObject k r2 ob2 maps mid2 pa2 = Inr (maps', ob')
           \<or> injectResultInCollection k r2 coll maps mid2 pa2 = Inr (maps', coll')
           \<or> map_joinjs k rs maps mid2 pa2 = Inr (maps', out)) \<longrightarrow>
          (\<exists>m'. findMap maps' mid = Some m' \<and> properties m' = Some ps))"
proof (intro conjI impI allI)
  assume none: "properties m = None"
    and run: "injectResultInObject (Suc n) r ob maps mid pa = Inr (maps', ob')"
  let ?m1 = "resolvedMap r p m"
  have mid: "mapId m = mid" using assms(1) by (rule findMap_mapId)
  have f1: "findMap (storeMap maps ?m1) mid = Some ?m1"
    using findMap_storeMap[of maps ?m1 m mid] assms(1) mid by simp
  have later: "laterMaps (storeMap maps ?m1) maps'"
    using injectResultInObject_body_after_resolved[OF growsMaps_injectResultInObject _ assms(1)]
      run assms(2) by simp
  have "properties ?m1 = Some (inferProperties r p)"
    using none by (simp add: usedProperties_def)
  then show "\<exists>m'. findMap maps' mid = Some m'
               \<and> properties m' =
                   Some (map (\<lambda>f. FStr (drop (length p) f))
                          (filter (\<lambda>f. startsWith f p) (map fst r)))"
    using laterMaps_properties_Some[OF later f1] by (simp add: inferProperties_def)
next
  fix f show "propertyField (FStr f) = \<lparr>name = f, column = f\<rparr>" by simp
next
  show "injectResultInObject (Suc n) r ob maps mid pa =
         (case forEach (copyAssociation (injectResultInObject n) r) (associations m)
                 (storeMap maps (resolvedMap r p m),
                  fold (copyProperty r p)
                    (case properties m of None \<Rightarrow> inferProperties r p | Some ps \<Rightarrow> ps)
                    (fold (copyId r p) (fst (getIdProperty m)) ob)) of
            Inl e \<Rightarrow> Inl e
          | Inr st \<Rightarrow> forEach (copyCollection (injectResultInObject n) r) (collections m) st)"
    unfolding assms(2) using injectResultInObject_body_eq[OF assms(1)]
    by (simp add: copiedFields_def usedProperties_def)
next
  assume some: "properties m = Some ps"
    and run: "injectResultInObject k r2 ob2 maps mid2 pa2 = Inr (maps', ob')
           \<or> injectResultInCollection k r2 coll maps mid2 pa2 = Inr (maps', coll')
           \<or> map_joinjs k rs maps mid2 pa2 = Inr (maps', out)"
  have "laterMaps maps maps'"
    using run
  proof (elim disjE)
    assume "injectResultInObject k r2 ob2 maps mid2 pa2 = Inr (maps', ob')"
    then show ?thesis by (rule injectResultInObject_laterMaps)
  next
    assume "injectResultInCollection k r2 coll maps mid2 pa2 = Inr (maps', coll')"
    then show ?thesis by (rule injectResultInCollection_laterMaps)
  next
    assume "map_joinjs k rs maps mid2 pa2 = Inr (maps', out)"
    then show ?thesis by (rule map_joinjs_laterMaps)
  qed
  then show "\<exists>m'. findMap maps' mid = Some m' \<and> properties m' = Some ps"
    using laterMaps_properties_Some assms(1) some by blast
qed

text \<open>
  The child definition: the list is inferred from the first row under \<open>child_\<close>, and
  a later row injected under the empty prefix, whose own columns would infer four
  properties, is read through the stored two.
\<close>

theorem properties_inferred_once_witness:
  "findMap [parentMap, childMap] ''child'' = Some childMap
   \<and> properties childMap = None
   \<and> injectResultInObject (Suc 0) (familyRows ! 0) [] [parentMap, childMap] ''child''
        (Some ''child_'')
      = Inr ([parentMap, childMapInferred],
             [(''id'', Scalar (Num 10)), (''name'', Scalar (Str ''X''))])
   \<and> (\<exists>m'. findMap [parentMap, childMapInferred] ''child'' = Some m'
         \<and> properties m' =
             Some (map (\<lambda>f. FStr (drop (length ''child_'') f))
                    (filter (\<lambda>f. startsWith f ''child_'') (map fst (familyRows ! 0)))))
   \<and> properties childMapInferred = Some [FStr ''id'', FStr ''name'']
   \<and> injectResultInObject (Suc 0) (familyRows ! 2) [] [parentMap, childMapInferred] ''child''
        (Some [])
      = Inr ([parentMap, childMapInferred],
             [(''id'', Scalar (Num 2)), (''name'', Scalar (Str ''B''))])"
proof -
  have f: "findMap [parentMap, childMap] ''child'' = Some childMap"
    by (simp add: findMap_def parentMap_def childMap_def)
  have none: "properties childMap = None" by (simp add: childMap_def)
  have run: "injectResultInObject (Suc 0) (familyRows ! 0) [] [parentMap, childMap] ''child''
        (Some ''child_'')
      = Inr ([parentMap, childMapInferred],
             [(''id'', Scalar (Num 10)), (''name'', Scalar (Str ''X''))])"
    by (simp add: mapper_defs familyRows_def parentMap_def childMap_def childMapInferred_def Let_def)
  have run2: "injectResultInObject (Suc 0) (familyRows ! 2) [] [parentMap, childMapInferred] ''child''
        (Some [])
      = Inr ([parentMap, childMapInferred],
             [(''id'', Scalar (Num 2)), (''name'', Scalar (Str ''B''))])"
    by (simp add: mapper_defs familyRows_def parentMap_def childMap_def childMapInferred_def Let_def)
  have "\<exists>m'. findMap [parentMap, childMapInferred] ''child'' = Some m'
         \<and> properties m' =
             Some (map (\<lambda>f. FStr (drop (length ''child_'') f))
                    (filter (\<lambda>f. startsWith f ''child_'') (map fst (familyRows ! 0))))"
    using properties_inferred_once[OF f, where pa = "Some ''child_''" and p = "''child_''"
        and n = 0 and r = "familyRows ! 0" and ob = "[]"
        and maps' = "[parentMap, childMapInferred]"
        and ob' = "[(''id'', Scalar (Num 10)), (''name'', Scalar (Str ''X''))]"]
      none run
    by (simp add: prefixOrEmpty_def)
  moreover have "properties childMapInferred = Some [FStr ''id'', FStr ''name'']"
    by (simp add: childMapInferred_def)
  ultimately show ?thesis using f none run run2 by simp
qed

text \<open>
  Claim C9. When a run of \<open>map\<close> returns a graph and leaves the definitions changed
  (properties inferred, identity columns filled in), running \<open>map\<close> again on the
  definitions as left, with the same rows, mapId and prefix, returns the same graph and
  changes the definitions no further; so does a run on any later state of the
  definitions.
\<close>

theorem map_again_same_graph:
  assumes "map_joinjs n rs maps mid pa = Inr (maps', out)"
  shows "map_joinjs n rs maps' mid pa = Inr (maps', out)
     \<and> (\<forall>later. laterMaps maps' later \<longrightarrow> map_joinjs n rs later mid pa = Inr (later, out))"
  using map_joinjs_replays[OF assms] by simp

text \<open>The scenario, run on the fresh definitions and on the definitions it leaves.\<close>

theorem map_again_same_graph_witness:
  "map_joinjs 2 familyRows [parentMap, childMap] ''parent'' None
     = Inr ([parentMap, childMapInferred], familyObjects)
   \<and> map_joinjs 2 familyRows [parentMap, childMapInferred] ''parent'' None
     = Inr ([parentMap, childMapInferred], familyObjects)
   \<and> childMapInferred \<noteq> childMap"
  using map_again_same_graph[OF family_run] family_run
  by (simp add: childMapInferred_def childMap_def)




end
